theory Spec2Isabelle
  imports Main "HOL-Library.Char_ord"
begin

section \<open>Errors\<close>

text \<open>
  Go errors as values. \<open>errors_New\<close> is \<^verbatim>\<open>errors.New(text)\<close>; the two other
  constructors are the two shapes of \<^verbatim>\<open>fmt.Errorf\<close> that config.go uses:
  \<^verbatim>\<open>fmt.Errorf("%w: %v", err, v)\<close> and \<^verbatim>\<open>fmt.Errorf("<prefix>: %w", err)\<close>.
  Both wrap their \<^verbatim>\<open>%w\<close> operand. Go compares sentinel errors by identity; the
  sentinels of config.go have pairwise different texts, so comparing the text
  identifies them.
\<close>

datatype error =
    errors_New string
  | Errorf_w_v error string
  | Errorf_prefix_w string error

definition ErrInvalidLavaVersion :: error where
  "ErrInvalidLavaVersion = errors_New ''invalid Lava version''"

definition ErrNoTargets :: error where
  "ErrNoTargets = errors_New ''no targets''"

definition ErrNoTargetIdentifier :: error where
  "ErrNoTargetIdentifier = errors_New ''no target identifier''"

definition ErrInvalidAssetType :: error where
  "ErrInvalidAssetType = errors_New ''invalid asset type''"

definition ErrInvalidSeverity :: error where
  "ErrInvalidSeverity = errors_New ''invalid severity''"

definition ErrInvalidOutputFormat :: error where
  "ErrInvalidOutputFormat = errors_New ''invalid output format''"

text \<open>The text of an error (\<^verbatim>\<open>err.Error()\<close>); \<^verbatim>\<open>%v\<close> prints a string as it is.\<close>

fun Error :: "error \<Rightarrow> string" where
  "Error (errors_New s) = s"
| "Error (Errorf_w_v e v) = Error e @ '': '' @ v"
| "Error (Errorf_prefix_w p e) = p @ '': '' @ Error e"

text \<open>\<^verbatim>\<open>errors.Is(err, target)\<close>: \<open>err\<close> or an error it wraps is \<open>target\<close>.\<close>

fun errors_Is :: "error \<Rightarrow> error \<Rightarrow> bool" where
  "errors_Is (errors_New s) target = (errors_New s = target)"
| "errors_Is (Errorf_w_v e v) target = (Errorf_w_v e v = target \<or> errors_Is e target)"
| "errors_Is (Errorf_prefix_w p e) target = (Errorf_prefix_w p e = target \<or> errors_Is e target)"

section \<open>Severity\<close>

text \<open>
  \<^verbatim>\<open>type Severity int\<close> with five named constants. No arithmetic is done on a
  severity, so the unbounded \<open>int\<close> stands for Go's \<^verbatim>\<open>int\<close>. The zero value of
  the type is 0, which is \<open>SeverityHigh\<close>.
\<close>

type_synonym Severity = int

definition SeverityCritical :: Severity where "SeverityCritical = 1"
definition SeverityHigh :: Severity where "SeverityHigh = 0"
definition SeverityMedium :: Severity where "SeverityMedium = - 1"
definition SeverityLow :: Severity where "SeverityLow = - 2"
definition SeverityInfo :: Severity where "SeverityInfo = - 3"

text \<open>The entries of the map literal \<^verbatim>\<open>severityNames\<close>, and the map itself.\<close>

definition severityNames_entries :: "(string \<times> Severity) list" where
  "severityNames_entries =
    [(''critical'', SeverityCritical),
     (''high'', SeverityHigh),
     (''medium'', SeverityMedium),
     (''low'', SeverityLow),
     (''info'', SeverityInfo)]"

definition severityNames :: "string \<rightharpoonup> Severity" where
  "severityNames = map_of severityNames_entries"

text \<open>
  \<^verbatim>\<open>parseSeverity\<close> returns the pair (value, error) as the Go function does: on a
  miss the value is the zero Severity and the error wraps \<open>ErrInvalidSeverity\<close>
  together with the string that was looked up.
\<close>

definition parseSeverity :: "string \<Rightarrow> Severity \<times> error option" where
  "parseSeverity severity =
    (case severityNames severity of
       Some val \<Rightarrow> (val, None)
     | None \<Rightarrow> (0, Some (Errorf_w_v ErrInvalidSeverity severity)))"

text \<open>
  \<^verbatim>\<open>yaml.Node\<close> belongs to the YAML library; the unmarshalers of config.go read
  its field \<^verbatim>\<open>Value\<close> only.
\<close>

record yaml_Node =
  Value :: string

text \<open>
  \<^verbatim>\<open>(*Severity).UnmarshalYAML\<close>. The receiver is passed in and returned: the
  first component of the result is what \<^verbatim>\<open>*s\<close> holds when the method returns.
\<close>

definition Severity_UnmarshalYAML :: "Severity \<Rightarrow> yaml_Node \<Rightarrow> Severity \<times> error option" where
  "Severity_UnmarshalYAML s v =
    (case parseSeverity (Value v) of
       (severity, Some err) \<Rightarrow> (s, Some err)
     | (severity, None) \<Rightarrow> (severity, None))"

section \<open>Output format\<close>

type_synonym OutputFormat = int

definition OutputFormatJSON :: OutputFormat where "OutputFormatJSON = 0"

definition outputFormatNames :: "string \<rightharpoonup> OutputFormat" where
  "outputFormatNames = map_of [(''json'', OutputFormatJSON)]"

text \<open>
  \<^verbatim>\<open>parseOutputFormat\<close> looks up \<^verbatim>\<open>strings.ToLower(format)\<close>. The standard
  library's function is the parameter \<open>ToLower\<close>; the error carries the string
  as it was given, not the lowered one.
\<close>

definition parseOutputFormat :: "(string \<Rightarrow> string) \<Rightarrow> string \<Rightarrow> OutputFormat \<times> error option" where
  "parseOutputFormat ToLower format =
    (case outputFormatNames (ToLower format) of
       Some val \<Rightarrow> (val, None)
     | None \<Rightarrow> (0, Some (Errorf_w_v ErrInvalidOutputFormat format)))"

definition OutputFormat_UnmarshalYAML ::
  "(string \<Rightarrow> string) \<Rightarrow> OutputFormat \<Rightarrow> yaml_Node \<Rightarrow> OutputFormat \<times> error option" where
  "OutputFormat_UnmarshalYAML ToLower f v =
    (case parseOutputFormat ToLower (Value v) of
       (format, Some err) \<Rightarrow> (f, Some err)
     | (format, None) \<Rightarrow> (format, None))"

text \<open>
  What \<^verbatim>\<open>strings.ToLower\<close> does on ASCII text: the letters A to Z move to a to z,
  every other byte stays. It instantiates \<open>ToLower\<close> in the examples.
\<close>

definition ascii_ToLower :: "string \<Rightarrow> string" where
  "ascii_ToLower s =
    map (\<lambda>c. if CHR ''A'' \<le> c \<and> c \<le> CHR ''Z'' then char_of (of_char c + (32::nat)) else c) s"

section \<open>The configuration\<close>

text \<open>
  The structs of config.go as records. Slices are lists (a nil slice and an empty
  one are both \<open>[]\<close>; the code only takes their length and ranges over them), maps
  are partial functions, \<^verbatim>\<open>agentconfig.PullPolicy\<close> and \<^verbatim>\<open>slog.Level\<close> are
  integer types of other packages, \<^verbatim>\<open>types.AssetType\<close> is a string type, and
  the values of \<^verbatim>\<open>map[string]any\<close> are left opaque.
\<close>

typedecl any

type_synonym PullPolicy = int
type_synonym AssetType = string
type_synonym Level = int

record RegistryAuth =
  Server :: string
  Username :: string
  Password :: string

record AgentConfig =
  PullPolicy :: PullPolicy
  Parallel :: int
  Vars :: "string \<rightharpoonup> string"
  RegistriesAuth :: "RegistryAuth list"

record Exclusion =
  Target :: string
  Resource :: string
  Fingerprint :: string
  Summary :: string
  Description :: string

record ReportConfig =
  Severity :: Severity
  Format :: OutputFormat
  OutputFile :: string
  Exclusions :: "Exclusion list"

record Target =
  Identifier :: string
  AssetType :: AssetType
  Options :: "string \<rightharpoonup> any"

record Config =
  LavaVersion :: string
  AgentConfig :: AgentConfig
  ReportConfig :: ReportConfig
  ChecktypesURLs :: "string list"
  Targets :: "Target list"
  LogLevel :: Level

text \<open>\<^verbatim>\<open>Config{}\<close>, the zero value: every field is the zero value of its type.\<close>

definition Config_zero :: Config where
  "Config_zero =
    \<lparr>LavaVersion = [],
     AgentConfig = \<lparr>PullPolicy = 0, Parallel = 0, Vars = Map.empty, RegistriesAuth = []\<rparr>,
     ReportConfig = \<lparr>Severity = 0, Format = 0, OutputFile = [], Exclusions = []\<rparr>,
     ChecktypesURLs = [],
     Targets = [],
     LogLevel = 0\<rparr>"

text \<open>
  \<^verbatim>\<open>(*Config).validate\<close>. \<^verbatim>\<open>semver.IsValid\<close> is a function of the module
  golang.org/x/mod and is the parameter \<open>IsValid\<close>. The loop over the targets is
  \<open>validate_loop\<close>: it returns at the first target whose identifier is empty.
\<close>

fun validate_loop :: "Target list \<Rightarrow> error option" where
  "validate_loop [] = None"
| "validate_loop (target # rest) =
    (if Identifier target = [] then Some ErrNoTargetIdentifier else validate_loop rest)"

definition validate :: "(string \<Rightarrow> bool) \<Rightarrow> Config \<Rightarrow> error option" where
  "validate IsValid c =
    (if \<not> IsValid (LavaVersion c) then Some ErrInvalidLavaVersion
     else if length (Targets c) = 0 then Some ErrNoTargets
     else validate_loop (Targets c))"

text \<open>
  \<^verbatim>\<open>Parse\<close>. The YAML decoder is the parameter \<open>Decode\<close>: given the reader and
  the configuration it is to fill (\<^verbatim>\<open>&cfg\<close>, which starts as the zero value) it
  returns what the configuration holds afterwards, filled or partly filled, and
  the decoder's error. Nothing is assumed of it.
\<close>

definition Parse ::
  "('r \<Rightarrow> Config \<Rightarrow> Config \<times> error option) \<Rightarrow> (string \<Rightarrow> bool) \<Rightarrow> 'r \<Rightarrow> Config \<times> error option" where
  "Parse Decode IsValid r =
    (case Decode r Config_zero of
       (cfg, Some err) \<Rightarrow> (Config_zero, Some (Errorf_prefix_w ''decode config'' err))
     | (cfg, None) \<Rightarrow>
         (case validate IsValid cfg of
            Some err \<Rightarrow> (Config_zero, Some (Errorf_prefix_w ''validate config'' err))
          | None \<Rightarrow> (cfg, None)))"

section \<open>Semantic versions\<close>

text \<open>
  \<^verbatim>\<open>semver.IsValid\<close> is a function of golang.org/x/mod/semver, a module the
  repository depends on and does not contain. It is written here as that package
  defines it, with its helpers \<^verbatim>\<open>parse\<close>, \<^verbatim>\<open>parseInt\<close>, \<^verbatim>\<open>parsePrerelease\<close>,
  \<^verbatim>\<open>parseBuild\<close>, \<^verbatim>\<open>isIdentChar\<close> and \<^verbatim>\<open>isBadNum\<close>. The package documents the
  accepted form as vMAJOR[.MINOR[.PATCH[-PRERELEASE][+BUILD]]] and states that it
  requires the "v" prefix. Strings are byte sequences, indexed as in Go;
  \<open>slice v lo hi\<close> is \<^verbatim>\<open>v[lo:hi]\<close>.
\<close>

record parsed =
  major :: string
  minor :: string
  patch :: string
  short :: string
  prerelease :: string
  build :: string

definition parsed_zero :: parsed where
  "parsed_zero = \<lparr>major = [], minor = [], patch = [], short = [], prerelease = [], build = []\<rparr>"

definition slice :: "string \<Rightarrow> nat \<Rightarrow> nat \<Rightarrow> string" where
  "slice v lo hi = take (hi - lo) (drop lo v)"

definition isDigit :: "char \<Rightarrow> bool" where
  "isDigit c = (CHR ''0'' \<le> c \<and> c \<le> CHR ''9'')"

definition isIdentChar :: "char \<Rightarrow> bool" where
  "isIdentChar c =
    (CHR ''A'' \<le> c \<and> c \<le> CHR ''Z'' \<or> CHR ''a'' \<le> c \<and> c \<le> CHR ''z'' \<or>
     CHR ''0'' \<le> c \<and> c \<le> CHR ''9'' \<or> c = CHR ''-'')"

text \<open>The loop of \<^verbatim>\<open>isBadNum\<close> and of \<^verbatim>\<open>parseInt\<close>: advance \<open>i\<close> over digits.\<close>

function digits_loop :: "string \<Rightarrow> nat \<Rightarrow> nat" where
  "digits_loop v i = (if i < length v \<and> isDigit (v ! i) then digits_loop v (i + 1) else i)"
  by pat_completeness auto
termination
  by (relation "measure (\<lambda>(v, i). length v - i)") auto

definition isBadNum :: "string \<Rightarrow> bool" where
  "isBadNum v = (let i = digits_loop v 0 in i = length v \<and> i > 1 \<and> v ! 0 = CHR ''0'')"

text \<open>The three results are \<^verbatim>\<open>(t, rest string, ok bool)\<close>; a failure returns their zero values.\<close>

definition parseInt :: "string \<Rightarrow> string \<times> string \<times> bool" where
  "parseInt v =
    (if v = [] then ([], [], False)
     else if \<not> isDigit (v ! 0) then ([], [], False)
     else let i = digits_loop v 1 in
       if v ! 0 = CHR ''0'' \<and> i \<noteq> 1 then ([], [], False)
       else (take i v, drop i v, True))"

text \<open>
  The loop of \<^verbatim>\<open>parsePrerelease\<close> over the index \<open>i\<close>, with \<open>start\<close> the start of
  the current identifier. \<open>None\<close> is the failing return from inside the loop.
\<close>

function parsePrerelease_loop :: "string \<Rightarrow> nat \<Rightarrow> nat \<Rightarrow> (nat \<times> nat) option" where
  "parsePrerelease_loop v i start =
    (if i < length v \<and> v ! i \<noteq> CHR ''+'' then
       if \<not> isIdentChar (v ! i) \<and> v ! i \<noteq> CHR ''.'' then None
       else if v ! i = CHR ''.'' then
         if start = i \<or> isBadNum (slice v start i) then None
         else parsePrerelease_loop v (i + 1) (i + 1)
       else parsePrerelease_loop v (i + 1) start
     else Some (i, start))"
  by pat_completeness auto
termination
  by (relation "measure (\<lambda>(v, i, start). length v - i)") auto

definition parsePrerelease :: "string \<Rightarrow> string \<times> string \<times> bool" where
  "parsePrerelease v =
    (if v = [] \<or> v ! 0 \<noteq> CHR ''-'' then ([], [], False)
     else case parsePrerelease_loop v 1 1 of
       None \<Rightarrow> ([], [], False)
     | Some (i, start) \<Rightarrow>
         if start = i \<or> isBadNum (slice v start i) then ([], [], False)
         else (take i v, drop i v, True))"

function parseBuild_loop :: "string \<Rightarrow> nat \<Rightarrow> nat \<Rightarrow> (nat \<times> nat) option" where
  "parseBuild_loop v i start =
    (if i < length v then
       if \<not> isIdentChar (v ! i) \<and> v ! i \<noteq> CHR ''.'' then None
       else if v ! i = CHR ''.'' then
         if start = i then None
         else parseBuild_loop v (i + 1) (i + 1)
       else parseBuild_loop v (i + 1) start
     else Some (i, start))"
  by pat_completeness auto
termination
  by (relation "measure (\<lambda>(v, i, start). length v - i)") auto

definition parseBuild :: "string \<Rightarrow> string \<times> string \<times> bool" where
  "parseBuild v =
    (if v = [] \<or> v ! 0 \<noteq> CHR ''+'' then ([], [], False)
     else case parseBuild_loop v 1 1 of
       None \<Rightarrow> ([], [], False)
     | Some (i, start) \<Rightarrow>
         if start = i then ([], [], False)
         else (take i v, drop i v, True))"

text \<open>
  \<^verbatim>\<open>parse\<close> has the named results \<^verbatim>\<open>(p parsed, ok bool)\<close> and returns them as
  they stand at each \<^verbatim>\<open>return\<close>. It is split in three: the part up to the
  patch number, the optional prerelease, the optional build and the end of input.
\<close>

definition parse_build :: "parsed \<Rightarrow> string \<Rightarrow> parsed \<times> bool" where
  "parse_build p v =
    (if length v > 0 \<and> v ! 0 = CHR ''+'' then
       case parseBuild v of (b, v', ok) \<Rightarrow>
         if \<not> ok then (p\<lparr>build := b\<rparr>, False)
         else if v' \<noteq> [] then (p\<lparr>build := b\<rparr>, False)
         else (p\<lparr>build := b\<rparr>, True)
     else if v \<noteq> [] then (p, False)
     else (p, True))"

definition parse_prerelease :: "parsed \<Rightarrow> string \<Rightarrow> parsed \<times> bool" where
  "parse_prerelease p v =
    (if length v > 0 \<and> v ! 0 = CHR ''-'' then
       case parsePrerelease v of (pr, v', ok) \<Rightarrow>
         if \<not> ok then (p\<lparr>prerelease := pr\<rparr>, False)
         else parse_build (p\<lparr>prerelease := pr\<rparr>) v'
     else parse_build p v)"

definition parse :: "string \<Rightarrow> parsed \<times> bool" where
  "parse v =
    (if v = [] \<or> v ! 0 \<noteq> CHR ''v'' then (parsed_zero, False)
     else case parseInt (drop 1 v) of (mj, v1, ok1) \<Rightarrow>
       let p1 = parsed_zero\<lparr>major := mj\<rparr> in
       if \<not> ok1 then (p1, False)
       else if v1 = [] then (p1\<lparr>minor := ''0'', patch := ''0'', short := ''.0.0''\<rparr>, True)
       else if v1 ! 0 \<noteq> CHR ''.'' then (p1, False)
       else case parseInt (drop 1 v1) of (mn, v2, ok2) \<Rightarrow>
         let p2 = p1\<lparr>minor := mn\<rparr> in
         if \<not> ok2 then (p2, False)
         else if v2 = [] then (p2\<lparr>patch := ''0'', short := ''.0''\<rparr>, True)
         else if v2 ! 0 \<noteq> CHR ''.'' then (p2, False)
         else case parseInt (drop 1 v2) of (pt, v3, ok3) \<Rightarrow>
           let p3 = p2\<lparr>patch := pt\<rparr> in
           if \<not> ok3 then (p3, False)
           else parse_prerelease p3 v3)"

definition semver_IsValid :: "string \<Rightarrow> bool" where
  "semver_IsValid v = snd (parse v)"

section \<open>The Semantic Versioning grammar\<close>

text \<open>
  A numeric identifier of the Semantic Versioning grammar: digits, at least one,
  and no leading zero unless the number is "0".
\<close>

definition numeric :: "string \<Rightarrow> bool" where
  "numeric n = (n \<noteq> [] \<and> list_all isDigit n \<and> (hd n = CHR ''0'' \<longrightarrow> length n = 1))"

text \<open>
  The grammar of Semantic Versioning 2.0.0, written from its words, to compare
  the parser with. \<open>splitOn c s\<close> cuts \<open>s\<close> at every \<open>c\<close>; \<open>dotted P s\<close> says that
  the pieces of \<open>s\<close> between its dots all satisfy \<open>P\<close>.
\<close>

fun splitOn :: "char \<Rightarrow> string \<Rightarrow> string list" where
  "splitOn c [] = [[]]"
| "splitOn c (x # xs) =
    (if x = c then [] # splitOn c xs
     else case splitOn c xs of [] \<Rightarrow> [[x]] | y # ys \<Rightarrow> (x # y) # ys)"

definition dotted :: "(string \<Rightarrow> bool) \<Rightarrow> string \<Rightarrow> bool" where
  "dotted P s = list_all P (splitOn CHR ''.'' s)"

text \<open>
  A prerelease identifier is a numeric identifier or a non-empty text over
  0-9, A-Z, a-z and the hyphen with at least one character that is no digit. A
  build identifier is any non-empty text over these characters.
\<close>

definition pre_ident :: "string \<Rightarrow> bool" where
  "pre_ident s = (s \<noteq> [] \<and> list_all isIdentChar s \<and> (list_all isDigit s \<longrightarrow> numeric s))"

definition build_ident :: "string \<Rightarrow> bool" where
  "build_ident s = (s \<noteq> [] \<and> list_all isIdentChar s)"

text \<open>The version core MAJOR.MINOR.PATCH: three numeric identifiers.\<close>

definition semver_core :: "string \<Rightarrow> bool" where
  "semver_core s = (length (splitOn CHR ''.'' s) = 3 \<and> dotted numeric s)"

text \<open>
  What may follow the core: nothing, "+" and dotted build identifiers, or "-"
  and dotted prerelease identifiers up to the end or to a "+" with dotted build
  identifiers after it.
\<close>

definition semver_tail :: "string \<Rightarrow> bool" where
  "semver_tail t =
    (case t of
       [] \<Rightarrow> True
     | e # r \<Rightarrow>
         if e = CHR ''+'' then dotted build_ident r
         else e = CHR ''-'' \<and> dotted pre_ident (takeWhile (\<lambda>c. c \<noteq> CHR ''+'') r) \<and>
           (case dropWhile (\<lambda>c. c \<noteq> CHR ''+'') r of
              [] \<Rightarrow> True
            | p # m \<Rightarrow> dotted build_ident m))"

text \<open>
  A valid semantic version: the core is the text before the first "-" or "+",
  the rest is the tail.
\<close>

definition is_semver :: "string \<Rightarrow> bool" where
  "is_semver x =
    (semver_core (takeWhile (\<lambda>c. c \<noteq> CHR ''-'' \<and> c \<noteq> CHR ''+'') x) \<and>
     semver_tail (dropWhile (\<lambda>c. c \<noteq> CHR ''-'' \<and> c \<noteq> CHR ''+'') x))"

text \<open>The two shorthands MAJOR and MAJOR.MINOR, which are no semantic versions.\<close>

definition semver_short :: "string \<Rightarrow> bool" where
  "semver_short s =
    ((length (splitOn CHR ''.'' s) = 1 \<or> length (splitOn CHR ''.'' s) = 2) \<and> dotted numeric s)"

text \<open>
  What the version check is compared with: the letter "v" and after it a
  semantic version or one of the two shorthands.
\<close>

definition accepted_version :: "string \<Rightarrow> bool" where
  "accepted_version s =
    (case s of [] \<Rightarrow> False | c # x \<Rightarrow> c = CHR ''v'' \<and> (is_semver x \<or> semver_short x))"

text \<open>
  The loops of \<^verbatim>\<open>parsePrerelease\<close> and \<^verbatim>\<open>parseBuild\<close> once more, as recursions
  over the text that is left, with the identifier read so far; they include
  the test after the loop. The proofs go through them.
\<close>

fun prerelease_scan :: "string \<Rightarrow> string \<Rightarrow> bool" where
  "prerelease_scan seg [] = (seg \<noteq> [] \<and> \<not> isBadNum seg)"
| "prerelease_scan seg (c # w) =
    (if c = CHR ''+'' then seg \<noteq> [] \<and> \<not> isBadNum seg
     else if \<not> isIdentChar c \<and> c \<noteq> CHR ''.'' then False
     else if c = CHR ''.'' then seg \<noteq> [] \<and> \<not> isBadNum seg \<and> prerelease_scan [] w
     else prerelease_scan (seg @ [c]) w)"

fun build_scan :: "string \<Rightarrow> string \<Rightarrow> bool" where
  "build_scan seg [] = (seg \<noteq> [])"
| "build_scan seg (c # w) =
    (if \<not> isIdentChar c \<and> c \<noteq> CHR ''.'' then False
     else if c = CHR ''.'' then seg \<noteq> [] \<and> build_scan [] w
     else build_scan (seg @ [c]) w)"

text \<open>The loops are unfolded one step at a time, where a proof says so.\<close>

declare digits_loop.simps [simp del]
declare parsePrerelease_loop.simps [simp del]
declare parseBuild_loop.simps [simp del]

section \<open>Configurations of the test table\<close>

text \<open>
  The test \<^verbatim>\<open>TestParse\<close> expects \<^verbatim>\<open>want_target_identifier\<close> for the document
  testdata/target_identifier.yaml; \<open>decode_target_identifier\<close> is a decoder that
  fills the configuration it is given with that document. \<open>decode_invalid_severity\<close>
  is a decoder that has stored the version when the severity token "invalid" is
  rejected by \<open>Severity_UnmarshalYAML\<close>, \<open>decode_no_targets\<close> one that finds a
  version and no target, and \<open>decode_empty\<close> one that meets the end of the
  input at once (\<^verbatim>\<open>io.EOF\<close>).
\<close>

definition want_target_identifier :: Config where
  "want_target_identifier =
    Config_zero\<lparr>LavaVersion := ''v1.0.0'',
      Targets := [\<lparr>Identifier = ''example.com'', AssetType = [], Options = Map.empty\<rparr>]\<rparr>"


definition decode_invalid_severity :: "unit \<Rightarrow> Config \<Rightarrow> Config \<times> error option" where
  "decode_invalid_severity r cfg =
    (let cfg1 = cfg\<lparr>LavaVersion := ''v1.0.0''\<rparr>;
         (s, err) = Severity_UnmarshalYAML (Severity (ReportConfig cfg1)) \<lparr>Value = ''invalid''\<rparr>
     in (cfg1\<lparr>ReportConfig := (ReportConfig cfg1)\<lparr>Severity := s\<rparr>\<rparr>, err))"

definition decode_no_targets :: "unit \<Rightarrow> Config \<Rightarrow> Config \<times> error option" where
  "decode_no_targets r cfg = (cfg\<lparr>LavaVersion := ''v1.0.0''\<rparr>, None)"

definition io_EOF :: error where
  "io_EOF = errors_New ''EOF''"

definition decode_empty :: "unit \<Rightarrow> Config \<Rightarrow> Config \<times> error option" where
  "decode_empty r cfg = (cfg, Some io_EOF)"

text \<open>
  Two configurations with the version and one good target of the test table and
  one target without identifier, first in the one and second in the other.
\<close>

definition no_identifier_first :: Config where
  "no_identifier_first =
    Config_zero\<lparr>LavaVersion := ''v1.0.0'',
      Targets := [\<lparr>Identifier = [], AssetType = ''DomainName'', Options = Map.empty\<rparr>,
                  \<lparr>Identifier = ''example.com'', AssetType = [], Options = Map.empty\<rparr>]\<rparr>"

definition no_identifier_second :: Config where
  "no_identifier_second =
    Config_zero\<lparr>LavaVersion := ''v1.0.0'',
      Targets := [\<lparr>Identifier = ''example.com'', AssetType = [], Options = Map.empty\<rparr>,
                  \<lparr>Identifier = [], AssetType = ''IP'', Options = Map.empty\<rparr>]\<rparr>"

section \<open>Filtering of findings\<close>

text \<open>
  Modelled from the spec: a finding as the exclusion matcher of section 4.3
  receives it, the triple of target name, resource name and fingerprint. The
  sources declare the type \<open>Exclusion\<close> and no finding and no matcher.
\<close>

record Finding =
  targetName :: string
  resourceName :: string
  fingerprint :: string

text \<open>
  Modelled from the spec: one rule against one finding (section 4.3). A field the
  rule leaves empty matches anything, a field it sets must equal the finding's.
\<close>

definition ruleMatches :: "Exclusion \<Rightarrow> Finding \<Rightarrow> bool" where
  "ruleMatches e f =
    ((Target e = [] \<or> targetName f = Target e) \<and>
     (Resource e = [] \<or> resourceName f = Resource e) \<and>
     (Fingerprint e = [] \<or> fingerprint f = Fingerprint e))"

text \<open>
  Modelled from the spec: the matcher walks the exclusion list in document order
  and returns the first rule that matches, for the audit trail (section 4.3).
\<close>

fun matchedExclusion :: "Exclusion list \<Rightarrow> Finding \<Rightarrow> Exclusion option" where
  "matchedExclusion [] f = None"
| "matchedExclusion (e # es) f = (if ruleMatches e f then Some e else matchedExclusion es f)"

text \<open>Modelled from the spec: a finding is suppressed when a rule was matched (section 4.3).\<close>

definition suppressed :: "Exclusion list \<Rightarrow> Finding \<Rightarrow> bool" where
  "suppressed es f = (matchedExclusion es f \<noteq> None)"

text \<open>
  Modelled from the spec: the severity filter of section 4.4, which the sources do
  not contain. It compares the two severities as the integers that config.go
  gives them.
\<close>

definition reportable :: "Severity \<Rightarrow> Severity \<Rightarrow> bool" where
  "reportable findingSeverity minimumSeverity = (minimumSeverity \<le> findingSeverity)"

text \<open>
  Modelled from the spec: the encoding of a severity back to its name (sections 8
  and 9), a reverse lookup in the table \<^verbatim>\<open>severityNames\<close>. The sources have
  the decoding only. A value outside the table has no name.
\<close>

definition Severity_String :: "Severity \<Rightarrow> string option" where
  "Severity_String s = map_of (map (\<lambda>(name, val). (val, name)) severityNames_entries) s"

section \<open>Properties of the severity codec\<close>

lemma severityNames_miss:
  "s \<notin> {''critical'', ''high'', ''medium'', ''low'', ''info''} \<Longrightarrow> severityNames s = None"
  by (simp add: severityNames_def severityNames_entries_def)

text \<open>
  Claim C1. \<open>parseSeverity\<close> maps "critical" to 1, "high" to 0, "medium" to -1,
  "low" to -2 and "info" to -3 with no error. Every other string, the wrong-case
  "Critical" among them, gives the zero value and an error that wraps
  \<open>ErrInvalidSeverity\<close> and carries the string: its text is
  "invalid severity: " followed by the string.
\<close>

theorem parseSeverity_table:
  "parseSeverity ''critical'' = (1, None) \<and>
   parseSeverity ''high'' = (0, None) \<and>
   parseSeverity ''medium'' = (- 1, None) \<and>
   parseSeverity ''low'' = (- 2, None) \<and>
   parseSeverity ''info'' = (- 3, None) \<and>
   (\<forall>s. s \<notin> {''critical'', ''high'', ''medium'', ''low'', ''info''} \<longrightarrow>
      parseSeverity s = (0, Some (Errorf_w_v ErrInvalidSeverity s)) \<and>
      errors_Is (Errorf_w_v ErrInvalidSeverity s) ErrInvalidSeverity \<and>
      Error (Errorf_w_v ErrInvalidSeverity s) = ''invalid severity: '' @ s)"
proof -
  have hit: "parseSeverity ''critical'' = (1, None)" "parseSeverity ''high'' = (0, None)"
    "parseSeverity ''medium'' = (- 1, None)" "parseSeverity ''low'' = (- 2, None)"
    "parseSeverity ''info'' = (- 3, None)"
    by (simp_all add: parseSeverity_def severityNames_def severityNames_entries_def
        SeverityCritical_def SeverityHigh_def SeverityMedium_def SeverityLow_def
        SeverityInfo_def)
  have miss: "parseSeverity s = (0, Some (Errorf_w_v ErrInvalidSeverity s))"
    if "s \<notin> {''critical'', ''high'', ''medium'', ''low'', ''info''}" for s
    using severityNames_miss [OF that] by (simp add: parseSeverity_def)
  have carried: "errors_Is (Errorf_w_v ErrInvalidSeverity s) ErrInvalidSeverity \<and>
      Error (Errorf_w_v ErrInvalidSeverity s) = ''invalid severity: '' @ s" for s
    by (simp add: ErrInvalidSeverity_def)
  from hit miss carried show ?thesis by blast
qed

theorem parseSeverity_table_witness:
  "''Critical'' \<notin> {''critical'', ''high'', ''medium'', ''low'', ''info''} \<and>
   parseSeverity ''Critical'' = (0, Some (Errorf_w_v ErrInvalidSeverity ''Critical'')) \<and>
   Error (Errorf_w_v ErrInvalidSeverity ''Critical'') = ''invalid severity: Critical''"
proof -
  have out: "''Critical'' \<notin> {''critical'', ''high'', ''medium'', ''low'', ''info''}"
    by simp
  from parseSeverity_table have
    "\<forall>s. s \<notin> {''critical'', ''high'', ''medium'', ''low'', ''info''} \<longrightarrow>
      parseSeverity s = (0, Some (Errorf_w_v ErrInvalidSeverity s)) \<and>
      errors_Is (Errorf_w_v ErrInvalidSeverity s) ErrInvalidSeverity \<and>
      Error (Errorf_w_v ErrInvalidSeverity s) = ''invalid severity: '' @ s"
    by blast
  with out show ?thesis by force
qed

section \<open>Auxiliary facts\<close>

lemma semver_v1_0_0: "semver_IsValid ''v1.0.0''"
  by (simp add: semver_IsValid_def parse_def parseInt_def isDigit_def parse_prerelease_def
      parse_build_def parsed_zero_def digits_loop.simps)


lemma validate_loop_first:
  "\<forall>p\<in>set pre. Identifier p \<noteq> [] \<Longrightarrow> Identifier t = [] \<Longrightarrow>
   validate_loop (pre @ t # rest) = Some ErrNoTargetIdentifier"
  by (induction pre) auto

lemma validate_loop_Some:
  "\<exists>t\<in>set ts. Identifier t = [] \<Longrightarrow> validate_loop ts = Some ErrNoTargetIdentifier"
  by (induction ts) auto


lemma Parse_decode_error:
  "Decode r Config_zero = (cfg, Some e) \<Longrightarrow>
   Parse Decode IsValid r = (Config_zero, Some (Errorf_prefix_w ''decode config'' e))"
  by (simp add: Parse_def)

lemma Parse_validate_error:
  "Decode r Config_zero = (cfg, None) \<Longrightarrow> validate IsValid cfg = Some e \<Longrightarrow>
   Parse Decode IsValid r = (Config_zero, Some (Errorf_prefix_w ''validate config'' e))"
  by (simp add: Parse_def)


lemma decode_invalid_severity_zero:
  "decode_invalid_severity () Config_zero =
    (Config_zero\<lparr>LavaVersion := ''v1.0.0''\<rparr>, Some (Errorf_w_v ErrInvalidSeverity ''invalid''))"
  by (simp add: decode_invalid_severity_def Config_zero_def Severity_UnmarshalYAML_def
      parseSeverity_def severityNames_def severityNames_entries_def)

section \<open>Parse\<close>



text \<open>
  Claim C7. Whenever \<open>Parse\<close> returns an error, the configuration it returns with
  it is the zero value \<open>Config_zero\<close>, whatever the decoder left in the
  configuration it was filling. An error of the decoder comes back wrapped as
  "decode config: ...", an error of \<open>validate\<close> as "validate config: ...".
\<close>

theorem Parse_error_zero:
  "(snd (Parse Decode IsValid r) \<noteq> None \<longrightarrow> fst (Parse Decode IsValid r) = Config_zero) \<and>
   (\<forall>cfg e. Decode r Config_zero = (cfg, Some e) \<longrightarrow>
      Parse Decode IsValid r = (Config_zero, Some (Errorf_prefix_w ''decode config'' e))) \<and>
   (\<forall>cfg e. Decode r Config_zero = (cfg, None) \<and> validate IsValid cfg = Some e \<longrightarrow>
      Parse Decode IsValid r = (Config_zero, Some (Errorf_prefix_w ''validate config'' e)))"
proof (intro conjI allI impI)
  assume "snd (Parse Decode IsValid r) \<noteq> None"
  then show "fst (Parse Decode IsValid r) = Config_zero"
    by (auto simp: Parse_def split: prod.splits option.splits)
next
  fix cfg e
  assume "Decode r Config_zero = (cfg, Some e)"
  then show "Parse Decode IsValid r = (Config_zero, Some (Errorf_prefix_w ''decode config'' e))"
    by (rule Parse_decode_error)
next
  fix cfg e
  assume "Decode r Config_zero = (cfg, None) \<and> validate IsValid cfg = Some e"
  then show "Parse Decode IsValid r = (Config_zero, Some (Errorf_prefix_w ''validate config'' e))"
    by (simp add: Parse_validate_error)
qed

theorem Parse_error_zero_witness:
  "fst (decode_invalid_severity () Config_zero) \<noteq> Config_zero \<and>
   snd (Parse decode_invalid_severity semver_IsValid ()) \<noteq> None \<and>
   fst (Parse decode_invalid_severity semver_IsValid ()) = Config_zero \<and>
   Parse decode_empty semver_IsValid () =
     (Config_zero, Some (Errorf_prefix_w ''decode config'' io_EOF)) \<and>
   fst (decode_no_targets () Config_zero) \<noteq> Config_zero \<and>
   Parse decode_no_targets semver_IsValid () =
     (Config_zero, Some (Errorf_prefix_w ''validate config'' ErrNoTargets))"
proof -
  have filled: "fst (decode_invalid_severity () Config_zero) \<noteq> Config_zero"
    unfolding decode_invalid_severity_zero by (simp add: Config_zero_def)
  have failed: "snd (Parse decode_invalid_severity semver_IsValid ()) \<noteq> None"
    by (simp add: Parse_def decode_invalid_severity_zero)
  have eof: "decode_empty () Config_zero = (Config_zero, Some io_EOF)"
    by (simp add: decode_empty_def)
  have nt: "decode_no_targets () Config_zero = (Config_zero\<lparr>LavaVersion := ''v1.0.0''\<rparr>, None)"
    by (simp add: decode_no_targets_def)
  have ntfilled: "fst (decode_no_targets () Config_zero) \<noteq> Config_zero"
    unfolding nt by (simp add: Config_zero_def)
  have ntv: "validate semver_IsValid (Config_zero\<lparr>LavaVersion := ''v1.0.0''\<rparr>) = Some ErrNoTargets"
    using semver_v1_0_0 by (simp add: validate_def Config_zero_def)
  from Parse_error_zero [of decode_invalid_severity semver_IsValid "()", THEN conjunct1] failed
  have a: "fst (Parse decode_invalid_severity semver_IsValid ()) = Config_zero"
    by (rule mp)
  from Parse_error_zero [of decode_empty semver_IsValid "()", THEN conjunct2, THEN conjunct1] eof
  have b: "Parse decode_empty semver_IsValid () =
      (Config_zero, Some (Errorf_prefix_w ''decode config'' io_EOF))"
    by blast
  from Parse_error_zero [of decode_no_targets semver_IsValid "()", THEN conjunct2, THEN conjunct2]
    nt ntv
  have c: "Parse decode_no_targets semver_IsValid () =
      (Config_zero, Some (Errorf_prefix_w ''validate config'' ErrNoTargets))"
    by blast
  from filled failed a b ntfilled c show ?thesis by (intro conjI)
qed

section \<open>validate\<close>



lemma sentinels_distinct:
  "ErrInvalidLavaVersion \<noteq> ErrNoTargets" "ErrInvalidLavaVersion \<noteq> ErrNoTargetIdentifier"
  "ErrNoTargets \<noteq> ErrNoTargetIdentifier"
  by (simp_all add: ErrInvalidLavaVersion_def ErrNoTargets_def ErrNoTargetIdentifier_def)

lemma validate_loop_cut:
  "\<forall>p\<in>set pre. Identifier p \<noteq> [] \<Longrightarrow> Identifier t = [] \<Longrightarrow>
   validate_loop (pre @ t # rest) = validate_loop (pre @ [t])"
  by (induction pre) auto

text \<open>
  Claim C9, as amended. When the version is accepted and some target has an empty
  identifier, \<open>validate\<close> returns \<open>ErrNoTargetIdentifier\<close>. The loop returns at
  the first such target in list order: what follows it has no part in the
  result. The error is the bare sentinel with the text "no target identifier";
  it names no target.
\<close>

theorem validate_no_target_identifier:
  "(IsValid (LavaVersion c) \<and> (\<exists>t\<in>set (Targets c). Identifier t = []) \<longrightarrow>
      validate IsValid c = Some ErrNoTargetIdentifier) \<and>
   ((\<forall>p\<in>set pre. Identifier p \<noteq> []) \<and> Identifier t = [] \<longrightarrow>
      validate_loop (pre @ t # rest) = Some ErrNoTargetIdentifier \<and>
      validate_loop (pre @ t # rest) = validate_loop (pre @ [t])) \<and>
   Error ErrNoTargetIdentifier = ''no target identifier''"
proof (intro conjI impI)
  assume a: "IsValid (LavaVersion c) \<and> (\<exists>t\<in>set (Targets c). Identifier t = [])"
  then have "Targets c \<noteq> []" by auto
  with a show "validate IsValid c = Some ErrNoTargetIdentifier"
    by (simp add: validate_def validate_loop_Some)
next
  assume "(\<forall>p\<in>set pre. Identifier p \<noteq> []) \<and> Identifier t = []"
  then show "validate_loop (pre @ t # rest) = Some ErrNoTargetIdentifier"
    by (simp add: validate_loop_first)
next
  assume "(\<forall>p\<in>set pre. Identifier p \<noteq> []) \<and> Identifier t = []"
  then have "\<forall>p\<in>set pre. Identifier p \<noteq> []" and "Identifier t = []"
    by simp_all
  then show "validate_loop (pre @ t # rest) = validate_loop (pre @ [t])"
    by (rule validate_loop_cut)
next
  show "Error ErrNoTargetIdentifier = ''no target identifier''"
    by (simp add: ErrNoTargetIdentifier_def)
qed

theorem validate_no_target_identifier_witness:
  "semver_IsValid (LavaVersion no_identifier_second) \<and>
   map Identifier (Targets no_identifier_second) = [''example.com'', []] \<and>
   validate semver_IsValid no_identifier_second = Some ErrNoTargetIdentifier \<and>
   validate_loop (Targets no_identifier_second @ Targets no_identifier_first) =
     validate_loop (Targets no_identifier_second)"
proof -
  let ?good = "\<lparr>Identifier = ''example.com'', AssetType = [], Options = Map.empty\<rparr>"
  let ?bad = "\<lparr>Identifier = [], AssetType = ''IP'', Options = Map.empty\<rparr>"
  have ts: "Targets no_identifier_second = [?good] @ [?bad]"
    by (simp add: no_identifier_second_def)
  have ver: "semver_IsValid (LavaVersion no_identifier_second)"
    using semver_v1_0_0 by (simp add: no_identifier_second_def)
  have ids: "map Identifier (Targets no_identifier_second) = [''example.com'', []]"
    unfolding ts by simp
  have ex: "\<exists>t\<in>set (Targets no_identifier_second). Identifier t = []"
    unfolding ts by simp
  have v: "validate semver_IsValid no_identifier_second = Some ErrNoTargetIdentifier"
    using validate_no_target_identifier [of semver_IsValid no_identifier_second, THEN conjunct1]
      ver ex
    by (rule mp [OF _ conjI])
  have pre: "(\<forall>p\<in>set [?good]. Identifier p \<noteq> []) \<and> Identifier ?bad = []"
    by simp
  have cut: "validate_loop ([?good] @ ?bad # Targets no_identifier_first) =
      validate_loop ([?good] @ [?bad])"
    using validate_no_target_identifier
      [where pre = "[?good]" and t = ?bad and rest = "Targets no_identifier_first",
        THEN conjunct2, THEN conjunct1, THEN mp, OF pre]
    by (rule conjunct2)
  have "validate_loop (Targets no_identifier_second @ Targets no_identifier_first) =
      validate_loop (Targets no_identifier_second)"
    unfolding ts using cut by simp
  with ver ids v show ?thesis by (intro conjI)
qed

text \<open>
  Counterexample to claim C9 as stated. The error of \<open>validate\<close> does not
  report the target: the two configurations differ in their first target
  without identifier (its place and its asset type) and give the same error
  value, the sentinel with the fixed text.
\<close>

theorem validate_error_names_no_target:
  "validate semver_IsValid no_identifier_first = Some (errors_New ''no target identifier'') \<and>
   validate semver_IsValid no_identifier_second = Some (errors_New ''no target identifier'') \<and>
   find (\<lambda>t. Identifier t = []) (Targets no_identifier_first) \<noteq>
   find (\<lambda>t. Identifier t = []) (Targets no_identifier_second)"
  using semver_v1_0_0
  by (simp add: validate_def no_identifier_first_def no_identifier_second_def
      ErrNoTargetIdentifier_def)

section \<open>Unmarshalers\<close>

text \<open>
  Claim C10. When \<open>Severity_UnmarshalYAML\<close> or \<open>OutputFormat_UnmarshalYAML\<close>
  returns an error, the receiver holds the value it held before the call. That
  is the case for every token that is not in the name table: the result is the
  old value with the error that carries the token.
\<close>

theorem UnmarshalYAML_error_keeps_receiver:
  "(snd (Severity_UnmarshalYAML s v) \<noteq> None \<longrightarrow> fst (Severity_UnmarshalYAML s v) = s) \<and>
   (severityNames (Value v) = None \<longrightarrow>
      Severity_UnmarshalYAML s v = (s, Some (Errorf_w_v ErrInvalidSeverity (Value v)))) \<and>
   (snd (OutputFormat_UnmarshalYAML ToLower f v) \<noteq> None \<longrightarrow>
      fst (OutputFormat_UnmarshalYAML ToLower f v) = f) \<and>
   (outputFormatNames (ToLower (Value v)) = None \<longrightarrow>
      OutputFormat_UnmarshalYAML ToLower f v =
        (f, Some (Errorf_w_v ErrInvalidOutputFormat (Value v))))"
proof (intro conjI impI)
  assume "snd (Severity_UnmarshalYAML s v) \<noteq> None"
  then show "fst (Severity_UnmarshalYAML s v) = s"
    by (auto simp: Severity_UnmarshalYAML_def split: prod.splits option.splits)
next
  assume "severityNames (Value v) = None"
  then show "Severity_UnmarshalYAML s v = (s, Some (Errorf_w_v ErrInvalidSeverity (Value v)))"
    by (simp add: Severity_UnmarshalYAML_def parseSeverity_def)
next
  assume "snd (OutputFormat_UnmarshalYAML ToLower f v) \<noteq> None"
  then show "fst (OutputFormat_UnmarshalYAML ToLower f v) = f"
    by (auto simp: OutputFormat_UnmarshalYAML_def split: prod.splits option.splits)
next
  assume "outputFormatNames (ToLower (Value v)) = None"
  then show "OutputFormat_UnmarshalYAML ToLower f v =
      (f, Some (Errorf_w_v ErrInvalidOutputFormat (Value v)))"
    by (simp add: OutputFormat_UnmarshalYAML_def parseOutputFormat_def)
qed

theorem UnmarshalYAML_error_keeps_receiver_witness:
  "severityNames (Value \<lparr>Value = ''Critical''\<rparr>) = None \<and>
   Severity_UnmarshalYAML SeverityLow \<lparr>Value = ''Critical''\<rparr> =
     (SeverityLow, Some (Errorf_w_v ErrInvalidSeverity ''Critical'')) \<and>
   outputFormatNames (ascii_ToLower (Value \<lparr>Value = ''XML''\<rparr>)) = None \<and>
   OutputFormat_UnmarshalYAML ascii_ToLower 7 \<lparr>Value = ''XML''\<rparr> =
     (7, Some (Errorf_w_v ErrInvalidOutputFormat ''XML'')) \<and>
   OutputFormat_UnmarshalYAML ascii_ToLower 7 \<lparr>Value = ''JSON''\<rparr> = (OutputFormatJSON, None) \<and>
   snd (Severity_UnmarshalYAML SeverityLow \<lparr>Value = ''Critical''\<rparr>) \<noteq> None \<and>
   fst (Severity_UnmarshalYAML SeverityLow \<lparr>Value = ''Critical''\<rparr>) = SeverityLow \<and>
   snd (OutputFormat_UnmarshalYAML ascii_ToLower 7 \<lparr>Value = ''XML''\<rparr>) \<noteq> None \<and>
   fst (OutputFormat_UnmarshalYAML ascii_ToLower 7 \<lparr>Value = ''XML''\<rparr>) = 7"
proof -
  let ?sev = "\<lparr>Value = ''Critical''\<rparr>"
  let ?fmt = "\<lparr>Value = ''XML''\<rparr>"
  note sev = UnmarshalYAML_error_keeps_receiver [of SeverityLow ?sev ascii_ToLower 7]
  note fmt = UnmarshalYAML_error_keeps_receiver [of 0 ?fmt ascii_ToLower 7]
  have s: "severityNames (Value ?sev) = None"
    by (simp add: severityNames_def severityNames_entries_def)
  have lower: "ascii_ToLower ''XML'' = ''xml''" "ascii_ToLower ''JSON'' = ''json''"
    by code_simp+
  then have f: "outputFormatNames (ascii_ToLower (Value ?fmt)) = None"
    by (simp add: outputFormatNames_def)
  have ok: "OutputFormat_UnmarshalYAML ascii_ToLower 7 \<lparr>Value = ''JSON''\<rparr> = (OutputFormatJSON, None)"
    using lower by (simp add: OutputFormat_UnmarshalYAML_def parseOutputFormat_def
        outputFormatNames_def)
  from sev [THEN conjunct2, THEN conjunct1] s
  have a: "Severity_UnmarshalYAML SeverityLow ?sev =
      (SeverityLow, Some (Errorf_w_v ErrInvalidSeverity ''Critical''))"
    by simp
  from fmt [THEN conjunct2, THEN conjunct2, THEN conjunct2] f
  have b: "OutputFormat_UnmarshalYAML ascii_ToLower 7 ?fmt =
      (7, Some (Errorf_w_v ErrInvalidOutputFormat ''XML''))"
    by simp
  from a have a1: "snd (Severity_UnmarshalYAML SeverityLow ?sev) \<noteq> None" by simp
  from sev [THEN conjunct1] a1
  have a2: "fst (Severity_UnmarshalYAML SeverityLow ?sev) = SeverityLow" by (rule mp)
  from b have b1: "snd (OutputFormat_UnmarshalYAML ascii_ToLower 7 ?fmt) \<noteq> None" by simp
  from fmt [THEN conjunct2, THEN conjunct2, THEN conjunct1] b1
  have b2: "fst (OutputFormat_UnmarshalYAML ascii_ToLower 7 ?fmt) = 7" by (rule mp)
  from s a f b ok a1 a2 b1 b2 show ?thesis by (intro conjI)
qed

section \<open>The version check\<close>

subsection \<open>Characters\<close>

lemma isDigit_isIdentChar: "isDigit c \<Longrightarrow> isIdentChar c"
  by (simp add: isDigit_def isIdentChar_def)

lemma not_isDigit_dot: "\<not> isDigit CHR ''.''"
  by (simp add: isDigit_def)

lemma not_isDigit_v: "\<not> isDigit CHR ''v''"
  by (simp add: isDigit_def)

lemma not_isDigit_hyphen: "\<not> isDigit CHR ''-''"
  by (simp add: isDigit_def)

lemma not_isDigit_plus: "\<not> isDigit CHR ''+''"
  by (simp add: isDigit_def)

lemma not_isIdentChar_dot: "\<not> isIdentChar CHR ''.''"
  by (simp add: isIdentChar_def)

lemma not_isIdentChar_plus: "\<not> isIdentChar CHR ''+''"
  by (simp add: isIdentChar_def)

lemma digits_no_dot: "list_all isDigit s \<Longrightarrow> CHR ''.'' \<notin> set s"
  using not_isDigit_dot by (auto simp: list_all_iff)

lemma idents_no_dot: "list_all isIdentChar s \<Longrightarrow> CHR ''.'' \<notin> set s"
  using not_isIdentChar_dot by (auto simp: list_all_iff)

lemma idents_no_plus: "list_all isIdentChar s \<Longrightarrow> CHR ''+'' \<notin> set s"
  using not_isIdentChar_plus by (auto simp: list_all_iff)

subsection \<open>The digit loop, \<open>parseInt\<close> and \<open>isBadNum\<close>\<close>

lemma digits_loop_takeWhile:
  "i \<le> length v \<Longrightarrow> digits_loop v i = i + length (takeWhile isDigit (drop i v))"
proof (induction v i rule: digits_loop.induct)
  case (1 v i)
  show ?case
  proof (cases "i < length v \<and> isDigit (v ! i)")
    case True
    then have d: "drop i v = v ! i # drop (Suc i) v"
      by (simp add: Cons_nth_drop_Suc)
    from True 1 have "digits_loop v (i + 1) = i + 1 + length (takeWhile isDigit (drop (i + 1) v))"
      by simp
    with True d show ?thesis
      by (subst digits_loop.simps) simp
  next
    case False
    have "takeWhile isDigit (drop i v) = []"
    proof (cases "i < length v")
      case True
      with False have "\<not> isDigit (v ! i)" by simp
      moreover from True have "drop i v = v ! i # drop (Suc i) v"
        by (simp add: Cons_nth_drop_Suc)
      ultimately show ?thesis by simp
    next
      case False
      then show ?thesis by simp
    qed
    with False show ?thesis
      by (subst digits_loop.simps) auto
  qed
qed

lemma length_takeWhile_all:
  "(length (takeWhile P xs) = length xs) = list_all P xs"
  by (induction xs) auto

lemma isBadNum_iff:
  "isBadNum s = (list_all isDigit s \<and> 1 < length s \<and> hd s = CHR ''0'')"
proof -
  have loop: "digits_loop s 0 = length (takeWhile isDigit s)"
    using digits_loop_takeWhile [of 0 s] by simp
  show ?thesis
  proof (cases "list_all isDigit s")
    case True
    then have "length (takeWhile isDigit s) = length s"
      by (simp add: length_takeWhile_all)
    moreover have "1 < length s \<Longrightarrow> s ! 0 = hd s"
      by (cases s) simp_all
    ultimately show ?thesis
      using True unfolding isBadNum_def Let_def loop by auto
  next
    case False
    then have "length (takeWhile isDigit s) \<noteq> length s"
      by (simp add: length_takeWhile_all)
    with False show ?thesis
      unfolding isBadNum_def Let_def loop by simp
  qed
qed

lemma parseInt_iff:
  "parseInt v =
    (if numeric (takeWhile isDigit v) then (takeWhile isDigit v, dropWhile isDigit v, True)
     else ([], [], False))"
proof (cases v)
  case Nil
  then show ?thesis by (simp add: parseInt_def numeric_def)
next
  case (Cons x xs)
  show ?thesis
  proof (cases "isDigit x")
    case False
    with Cons show ?thesis by (simp add: parseInt_def numeric_def)
  next
    case True
    have "digits_loop v 1 = 1 + length (takeWhile isDigit (drop 1 v))"
      using Cons by (intro digits_loop_takeWhile) simp
    with Cons True have loop: "digits_loop v 1 = length (takeWhile isDigit v)"
      by simp
    have tk: "take (length (takeWhile isDigit v)) v = takeWhile isDigit v"
      by (rule takeWhile_eq_take [symmetric])
    have dr: "drop (length (takeWhile isDigit v)) v = dropWhile isDigit v"
      by (rule dropWhile_eq_drop [symmetric])
    have ds: "list_all isDigit (takeWhile isDigit v)"
      by (simp add: list_all_iff) (meson set_takeWhileD)
    from Cons True have hd: "hd (takeWhile isDigit v) = x" "takeWhile isDigit v \<noteq> []" "v ! 0 = x"
      by simp_all
    show ?thesis
      unfolding parseInt_def Let_def loop tk dr
      using Cons True ds hd by (auto simp: numeric_def simp del: digits_loop.simps)
  qed
qed

subsection \<open>Splitting at a character\<close>

lemma splitOn_not_Nil: "splitOn c s \<noteq> []"
  by (induction s) (simp_all split: list.splits)

lemma splitOn_none: "c \<notin> set s \<Longrightarrow> splitOn c s = [s]"
  by (induction s) auto

lemma splitOn_append:
  "c \<notin> set a \<Longrightarrow> splitOn c (a @ c # r) = a # splitOn c r"
  by (induction a) auto

lemma concat_splitOn: "concat (splitOn c s) = filter (\<lambda>x. x \<noteq> c) s"
  by (induction s) (auto split: list.splits)

lemma splitOn_one: "splitOn c s = [a] \<Longrightarrow> s = a"
proof (induction s arbitrary: a)
  case Nil
  then show ?case by simp
next
  case (Cons x xs)
  obtain y ys where s: "splitOn c xs = y # ys"
    using splitOn_not_Nil [of c xs] by (cases "splitOn c xs") simp_all
  with Cons.prems have "x \<noteq> c" "ys = []" "a = x # y"
    using splitOn_not_Nil [of c xs] by (auto split: if_splits)
  with s Cons.IH [of y] show ?case by simp
qed

lemma splitOn_Cons:
  "splitOn c s = a # b # bs \<Longrightarrow> \<exists>r. s = a @ c # r \<and> splitOn c r = b # bs"
proof (induction s arbitrary: a)
  case Nil
  then show ?case by simp
next
  case (Cons x xs)
  obtain y ys where s: "splitOn c xs = y # ys"
    using splitOn_not_Nil [of c xs] by (cases "splitOn c xs") simp_all
  show ?case
  proof (cases "x = c")
    case True
    with Cons.prems show ?thesis by auto
  next
    case False
    with Cons.prems s have a: "a = x # y" and ys: "ys = b # bs" by simp_all
    with s Cons.IH [of y] obtain r where "xs = y @ c # r" "splitOn c r = b # bs" by auto
    with a show ?thesis by auto
  qed
qed

subsection \<open>Identifiers between dots\<close>

lemma pre_ident_iff:
  "list_all isIdentChar s \<Longrightarrow> pre_ident s = (s \<noteq> [] \<and> \<not> isBadNum s)"
  by (cases s) (auto simp: pre_ident_def numeric_def isBadNum_iff)

lemma dotted_none: "CHR ''.'' \<notin> set s \<Longrightarrow> dotted P s = P s"
  by (simp add: dotted_def splitOn_none)

lemma dotted_append:
  "CHR ''.'' \<notin> set a \<Longrightarrow> dotted P (a @ CHR ''.'' # r) = (P a \<and> dotted P r)"
  by (simp add: dotted_def splitOn_append)

lemma dotted_chars:
  assumes "dotted P s" and "\<And>p. P p \<Longrightarrow> list_all isIdentChar p" and "x \<in> set s"
  shows "x = CHR ''.'' \<or> isIdentChar x"
proof (cases "x = CHR ''.''")
  case True
  then show ?thesis by simp
next
  case False
  with assms(3) have "x \<in> set (concat (splitOn CHR ''.'' s))"
    by (simp add: concat_splitOn)
  then obtain p where p: "p \<in> set (splitOn CHR ''.'' s)" and x: "x \<in> set p"
    by auto
  from assms(1) p have "P p" by (simp add: dotted_def list_all_iff)
  then have "list_all isIdentChar p" by (rule assms(2))
  with x show ?thesis by (simp add: list_all_iff)
qed

lemma dotted_pre_ident_chars:
  "dotted pre_ident s \<Longrightarrow> x \<in> set s \<Longrightarrow> x = CHR ''.'' \<or> isIdentChar x"
  by (erule dotted_chars) (simp_all add: pre_ident_def)

lemma dotted_build_ident_chars:
  "dotted build_ident s \<Longrightarrow> x \<in> set s \<Longrightarrow> x = CHR ''.'' \<or> isIdentChar x"
  by (erule dotted_chars) (simp_all add: build_ident_def)

lemma prerelease_scan_dotted:
  "list_all isIdentChar seg \<Longrightarrow>
   prerelease_scan seg w = dotted pre_ident (seg @ takeWhile (\<lambda>c. c \<noteq> CHR ''+'') w)"
proof (induction w arbitrary: seg)
  case Nil
  then show ?case by (simp add: dotted_none idents_no_dot pre_ident_iff)
next
  case (Cons c w)
  note nodot = idents_no_dot [OF Cons.prems]
  consider (plus) "c = CHR ''+''" | (dot) "c = CHR ''.''"
    | (bad) "c \<noteq> CHR ''+''" "c \<noteq> CHR ''.''" "\<not> isIdentChar c"
    | (ident) "c \<noteq> CHR ''+''" "c \<noteq> CHR ''.''" "isIdentChar c"
    by blast
  then show ?case
  proof cases
    case plus
    with Cons.prems nodot show ?thesis by (simp add: dotted_none pre_ident_iff)
  next
    case dot
    have "prerelease_scan [] w = dotted pre_ident ([] @ takeWhile (\<lambda>c. c \<noteq> CHR ''+'') w)"
      by (rule Cons.IH) simp
    with dot Cons.prems nodot show ?thesis
      by (simp add: dotted_append pre_ident_iff not_isIdentChar_dot)
  next
    case bad
    have "\<not> dotted pre_ident (seg @ c # takeWhile (\<lambda>c. c \<noteq> CHR ''+'') w)"
    proof
      assume "dotted pre_ident (seg @ c # takeWhile (\<lambda>c. c \<noteq> CHR ''+'') w)"
      then have "c = CHR ''.'' \<or> isIdentChar c"
        by (rule dotted_pre_ident_chars) simp
      with bad show False by simp
    qed
    with bad show ?thesis by simp
  next
    case ident
    from Cons.prems ident have "list_all isIdentChar (seg @ [c])" by simp
    then have "prerelease_scan (seg @ [c]) w =
        dotted pre_ident ((seg @ [c]) @ takeWhile (\<lambda>c. c \<noteq> CHR ''+'') w)"
      by (rule Cons.IH)
    with ident show ?thesis by simp
  qed
qed

lemma build_ident_iff: "list_all isIdentChar s \<Longrightarrow> build_ident s = (s \<noteq> [])"
  by (simp add: build_ident_def)

lemma build_scan_dotted:
  "list_all isIdentChar seg \<Longrightarrow> build_scan seg w = dotted build_ident (seg @ w)"
proof (induction w arbitrary: seg)
  case Nil
  then show ?case by (simp add: dotted_none idents_no_dot build_ident_iff)
next
  case (Cons c w)
  note nodot = idents_no_dot [OF Cons.prems]
  consider (dot) "c = CHR ''.''" | (bad) "c \<noteq> CHR ''.''" "\<not> isIdentChar c"
    | (ident) "c \<noteq> CHR ''.''" "isIdentChar c"
    by blast
  then show ?case
  proof cases
    case dot
    have "build_scan [] w = dotted build_ident ([] @ w)"
      by (rule Cons.IH) simp
    with dot Cons.prems nodot show ?thesis
      by (simp add: dotted_append build_ident_iff not_isIdentChar_dot)
  next
    case bad
    have "\<not> dotted build_ident (seg @ c # w)"
    proof
      assume "dotted build_ident (seg @ c # w)"
      then have "c = CHR ''.'' \<or> isIdentChar c"
        by (rule dotted_build_ident_chars) simp
      with bad show False by simp
    qed
    with bad show ?thesis by simp
  next
    case ident
    from Cons.prems ident have "list_all isIdentChar (seg @ [c])" by simp
    then have "build_scan (seg @ [c]) w = dotted build_ident ((seg @ [c]) @ w)"
      by (rule Cons.IH)
    with ident show ?thesis by simp
  qed
qed

subsection \<open>The loops of \<open>parsePrerelease\<close> and \<open>parseBuild\<close>\<close>

lemma slice_empty: "slice v i i = []"
  by (simp add: slice_def)

lemma slice_Nil_iff: "start \<le> i \<Longrightarrow> i \<le> length v \<Longrightarrow> (slice v start i = []) = (start = i)"
  by (auto simp: slice_def)

lemma slice_snoc:
  "start \<le> i \<Longrightarrow> i < length v \<Longrightarrow> slice v start (i + 1) = slice v start i @ [v ! i]"
proof -
  assume a: "start \<le> i" "i < length v"
  then have "i - start < length (drop start v)" by simp
  then have "take (Suc (i - start)) (drop start v) =
      take (i - start) (drop start v) @ [drop start v ! (i - start)]"
    by (rule take_Suc_conv_app_nth)
  moreover from a have "Suc i - start = Suc (i - start)" by simp
  moreover from a have "drop start v ! (i - start) = v ! i" by simp
  ultimately show ?thesis by (simp add: slice_def)
qed

lemma parsePrerelease_loop_scan:
  "start \<le> i \<Longrightarrow> i \<le> length v \<Longrightarrow>
   (case parsePrerelease_loop v i start of
      None \<Rightarrow> False
    | Some (j, st) \<Rightarrow> \<not> (st = j \<or> isBadNum (slice v st j))) =
   prerelease_scan (slice v start i) (drop i v)"
proof (induction v i start rule: parsePrerelease_loop.induct)
  case (1 v i start)
  show ?case
  proof (cases "i < length v \<and> v ! i \<noteq> CHR ''+''")
    case False
    then have res: "parsePrerelease_loop v i start = Some (i, start)"
      by (subst parsePrerelease_loop.simps) auto
    have "prerelease_scan (slice v start i) (drop i v) =
        (slice v start i \<noteq> [] \<and> \<not> isBadNum (slice v start i))"
    proof (cases "i < length v")
      case True
      with False have p: "v ! i = CHR ''+''" by simp
      from True have "drop i v = v ! i # drop (Suc i) v"
        by (rule Cons_nth_drop_Suc [symmetric])
      with p show ?thesis by simp
    next
      case False
      then show ?thesis by simp
    qed
    with res "1.prems" show ?thesis by (auto simp: slice_Nil_iff)
  next
    case True
    then have d: "drop i v = v ! i # drop (Suc i) v"
      by (simp add: Cons_nth_drop_Suc)
    from True have lt: "i < length v" by simp
    consider (bad) "\<not> isIdentChar (v ! i)" "v ! i \<noteq> CHR ''.''"
      | (dotfail) "v ! i = CHR ''.''" "start = i \<or> isBadNum (slice v start i)"
      | (dot) "v ! i = CHR ''.''" "\<not> (start = i \<or> isBadNum (slice v start i))"
      | (ident) "isIdentChar (v ! i)" "v ! i \<noteq> CHR ''.''"
      by blast
    then show ?thesis
    proof cases
      case bad
      with True have "parsePrerelease_loop v i start = None"
        by (subst parsePrerelease_loop.simps) simp
      with bad True d show ?thesis by simp
    next
      case dotfail
      with True have "parsePrerelease_loop v i start = None"
        by (subst parsePrerelease_loop.simps) (simp add: not_isIdentChar_dot)
      with dotfail True d "1.prems" show ?thesis
        by (auto simp: slice_Nil_iff not_isIdentChar_dot)
    next
      case dot
      with True have step: "parsePrerelease_loop v i start = parsePrerelease_loop v (i + 1) (i + 1)"
        by (subst parsePrerelease_loop.simps) (simp add: not_isIdentChar_dot)
      from True dot lt have ih: "(case parsePrerelease_loop v (i + 1) (i + 1) of
            None \<Rightarrow> False
          | Some (j, st) \<Rightarrow> \<not> (st = j \<or> isBadNum (slice v st j))) =
          prerelease_scan (slice v (i + 1) (i + 1)) (drop (i + 1) v)"
        by (intro "1.IH"(1)) (simp_all add: not_isIdentChar_dot)
      from dot "1.prems" have "slice v start i \<noteq> []" by (simp add: slice_Nil_iff)
      with step ih dot True d show ?thesis
        by (simp add: slice_empty not_isIdentChar_dot)
    next
      case ident
      with True have step: "parsePrerelease_loop v i start = parsePrerelease_loop v (i + 1) start"
        by (subst parsePrerelease_loop.simps) simp
      from True ident lt "1.prems"(1) have ih: "(case parsePrerelease_loop v (i + 1) start of
            None \<Rightarrow> False
          | Some (j, st) \<Rightarrow> \<not> (st = j \<or> isBadNum (slice v st j))) =
          prerelease_scan (slice v start (i + 1)) (drop (i + 1) v)"
        by (intro "1.IH"(2)) simp_all
      from "1.prems"(1) lt have "slice v start (i + 1) = slice v start i @ [v ! i]"
        by (rule slice_snoc)
      with step ih ident True d show ?thesis by simp
    qed
  qed
qed

lemma parsePrerelease_loop_end:
  "i \<le> length v \<Longrightarrow> parsePrerelease_loop v i start = Some (j, st) \<Longrightarrow>
   j = i + length (takeWhile (\<lambda>c. c \<noteq> CHR ''+'') (drop i v))"
proof (induction v i start rule: parsePrerelease_loop.induct)
  case (1 v i start)
  show ?case
  proof (cases "i < length v \<and> v ! i \<noteq> CHR ''+''")
    case False
    then have "parsePrerelease_loop v i start = Some (i, start)"
      by (subst parsePrerelease_loop.simps) auto
    with "1.prems"(2) have j: "j = i" by simp
    have "takeWhile (\<lambda>c. c \<noteq> CHR ''+'') (drop i v) = []"
    proof (cases "i < length v")
      case True
      with False have p: "v ! i = CHR ''+''" by simp
      from True have "drop i v = v ! i # drop (Suc i) v"
        by (rule Cons_nth_drop_Suc [symmetric])
      with p show ?thesis by simp
    next
      case False
      then show ?thesis by simp
    qed
    with j show ?thesis by simp
  next
    case True
    then have d: "drop i v = v ! i # drop (Suc i) v"
      by (simp add: Cons_nth_drop_Suc)
    from True have lt: "i + 1 \<le> length v" by simp
    from True "1.prems"(2) have c: "\<not> (\<not> isIdentChar (v ! i) \<and> v ! i \<noteq> CHR ''.'')"
      by (subst (asm) parsePrerelease_loop.simps) (auto split: if_splits)
    show ?thesis
    proof (cases "v ! i = CHR ''.''")
      case dot: True
      with True "1.prems"(2) have ok: "\<not> (start = i \<or> isBadNum (slice v start i))"
        and rec: "parsePrerelease_loop v (i + 1) (i + 1) = Some (j, st)"
        by (subst (asm) parsePrerelease_loop.simps, auto simp: not_isIdentChar_dot split: if_splits)+
      from True c dot ok lt rec
      have "j = i + 1 + length (takeWhile (\<lambda>c. c \<noteq> CHR ''+'') (drop (i + 1) v))"
        by (intro "1.IH"(1)) simp_all
      with True d show ?thesis by simp
    next
      case nodot: False
      with True c "1.prems"(2) have rec: "parsePrerelease_loop v (i + 1) start = Some (j, st)"
        by (subst (asm) parsePrerelease_loop.simps) (auto split: if_splits)
      from True c nodot lt rec
      have "j = i + 1 + length (takeWhile (\<lambda>c. c \<noteq> CHR ''+'') (drop (i + 1) v))"
        by (intro "1.IH"(2)) simp_all
      with True d show ?thesis by simp
    qed
  qed
qed

lemma parseBuild_loop_scan:
  "start \<le> i \<Longrightarrow> i \<le> length v \<Longrightarrow>
   (case parseBuild_loop v i start of None \<Rightarrow> False | Some (j, st) \<Rightarrow> st \<noteq> j) =
   build_scan (slice v start i) (drop i v)"
proof (induction v i start rule: parseBuild_loop.induct)
  case (1 v i start)
  show ?case
  proof (cases "i < length v")
    case False
    then have "parseBuild_loop v i start = Some (i, start)"
      by (subst parseBuild_loop.simps) simp
    with False "1.prems" show ?thesis by (auto simp: slice_Nil_iff)
  next
    case True
    then have d: "drop i v = v ! i # drop (Suc i) v"
      by (simp add: Cons_nth_drop_Suc)
    consider (bad) "\<not> isIdentChar (v ! i)" "v ! i \<noteq> CHR ''.''"
      | (dotfail) "v ! i = CHR ''.''" "start = i"
      | (dot) "v ! i = CHR ''.''" "start \<noteq> i"
      | (ident) "isIdentChar (v ! i)" "v ! i \<noteq> CHR ''.''"
      by blast
    then show ?thesis
    proof cases
      case bad
      with True have "parseBuild_loop v i start = None"
        by (subst parseBuild_loop.simps) simp
      with bad d show ?thesis by simp
    next
      case dotfail
      with True have "parseBuild_loop v i start = None"
        by (subst parseBuild_loop.simps) (simp add: not_isIdentChar_dot)
      with dotfail d "1.prems" show ?thesis
        by (simp add: slice_empty not_isIdentChar_dot)
    next
      case dot
      with True have step: "parseBuild_loop v i start = parseBuild_loop v (i + 1) (i + 1)"
        by (subst parseBuild_loop.simps) (simp add: not_isIdentChar_dot)
      from True dot have ih: "(case parseBuild_loop v (i + 1) (i + 1) of
            None \<Rightarrow> False | Some (j, st) \<Rightarrow> st \<noteq> j) =
          build_scan (slice v (i + 1) (i + 1)) (drop (i + 1) v)"
        by (intro "1.IH"(1)) (simp_all add: not_isIdentChar_dot)
      from dot "1.prems" have "slice v start i \<noteq> []" by (simp add: slice_Nil_iff)
      with step ih dot d show ?thesis
        by (simp add: slice_empty not_isIdentChar_dot)
    next
      case ident
      with True have step: "parseBuild_loop v i start = parseBuild_loop v (i + 1) start"
        by (subst parseBuild_loop.simps) simp
      from True ident "1.prems"(1) have ih: "(case parseBuild_loop v (i + 1) start of
            None \<Rightarrow> False | Some (j, st) \<Rightarrow> st \<noteq> j) =
          build_scan (slice v start (i + 1)) (drop (i + 1) v)"
        by (intro "1.IH"(2)) simp_all
      from "1.prems"(1) True have "slice v start (i + 1) = slice v start i @ [v ! i]"
        by (rule slice_snoc)
      with step ih ident d show ?thesis by simp
    qed
  qed
qed

lemma parseBuild_loop_end:
  "i \<le> length v \<Longrightarrow> parseBuild_loop v i start = Some (j, st) \<Longrightarrow> j = length v"
proof (induction v i start rule: parseBuild_loop.induct)
  case (1 v i start)
  show ?case
  proof (cases "i < length v")
    case False
    then have "parseBuild_loop v i start = Some (i, start)"
      by (subst parseBuild_loop.simps) simp
    with False "1.prems" show ?thesis by simp
  next
    case True
    then have lt: "i + 1 \<le> length v" by simp
    from True "1.prems"(2) have c: "\<not> (\<not> isIdentChar (v ! i) \<and> v ! i \<noteq> CHR ''.'')"
      by (subst (asm) parseBuild_loop.simps) (auto split: if_splits)
    show ?thesis
    proof (cases "v ! i = CHR ''.''")
      case dot: True
      with True "1.prems"(2) have ok: "start \<noteq> i"
        and rec: "parseBuild_loop v (i + 1) (i + 1) = Some (j, st)"
        by (subst (asm) parseBuild_loop.simps, auto simp: not_isIdentChar_dot split: if_splits)+
      from True c dot ok lt rec show ?thesis
        by (intro "1.IH"(1)) simp_all
    next
      case nodot: False
      with True c "1.prems"(2) have rec: "parseBuild_loop v (i + 1) start = Some (j, st)"
        by (subst (asm) parseBuild_loop.simps) (auto split: if_splits)
      from True c nodot lt rec show ?thesis
        by (intro "1.IH"(2)) simp_all
    qed
  qed
qed

subsection \<open>\<open>parsePrerelease\<close>, \<open>parseBuild\<close> and the tail of a version\<close>

lemma parsePrerelease_iff:
  "parsePrerelease (CHR ''-'' # w) =
    (if dotted pre_ident (takeWhile (\<lambda>c. c \<noteq> CHR ''+'') w)
     then (CHR ''-'' # takeWhile (\<lambda>c. c \<noteq> CHR ''+'') w, dropWhile (\<lambda>c. c \<noteq> CHR ''+'') w, True)
     else ([], [], False))"
proof -
  let ?v = "CHR ''-'' # w"
  let ?P = "\<lambda>c. c \<noteq> CHR ''+''"
  have "(case parsePrerelease_loop ?v 1 1 of
      None \<Rightarrow> False
    | Some (j, st) \<Rightarrow> \<not> (st = j \<or> isBadNum (slice ?v st j))) =
    prerelease_scan (slice ?v 1 1) (drop 1 ?v)"
    by (rule parsePrerelease_loop_scan) simp_all
  also have "\<dots> = prerelease_scan [] w" by (simp add: slice_empty)
  also have "\<dots> = dotted pre_ident ([] @ takeWhile ?P w)"
    by (rule prerelease_scan_dotted) simp
  finally have scan: "(case parsePrerelease_loop ?v 1 1 of
      None \<Rightarrow> False
    | Some (j, st) \<Rightarrow> \<not> (st = j \<or> isBadNum (slice ?v st j))) = dotted pre_ident (takeWhile ?P w)"
    by simp
  show ?thesis
  proof (cases "parsePrerelease_loop ?v 1 1")
    case None
    with scan show ?thesis by (simp add: parsePrerelease_def)
  next
    case (Some r)
    obtain j st where r: "r = (j, st)" by (cases r)
    have "j = 1 + length (takeWhile ?P (drop 1 ?v))"
      using Some r by (intro parsePrerelease_loop_end [where start = 1 and st = st]) simp_all
    then have j: "j = Suc (length (takeWhile ?P w))" by simp
    have tk: "take (length (takeWhile ?P w)) w = takeWhile ?P w"
      by (rule takeWhile_eq_take [symmetric])
    have dr: "drop (length (takeWhile ?P w)) w = dropWhile ?P w"
      by (rule dropWhile_eq_drop [symmetric])
    from scan Some r j tk dr show ?thesis
      by (auto simp: parsePrerelease_def)
  qed
qed

lemma parseBuild_iff:
  "parseBuild (CHR ''+'' # m) =
    (if dotted build_ident m then (CHR ''+'' # m, [], True) else ([], [], False))"
proof -
  let ?v = "CHR ''+'' # m"
  have "(case parseBuild_loop ?v 1 1 of None \<Rightarrow> False | Some (j, st) \<Rightarrow> st \<noteq> j) =
    build_scan (slice ?v 1 1) (drop 1 ?v)"
    by (rule parseBuild_loop_scan) simp_all
  also have "\<dots> = build_scan [] m" by (simp add: slice_empty)
  also have "\<dots> = dotted build_ident ([] @ m)"
    by (rule build_scan_dotted) simp
  finally have scan: "(case parseBuild_loop ?v 1 1 of None \<Rightarrow> False | Some (j, st) \<Rightarrow> st \<noteq> j) =
      dotted build_ident m"
    by simp
  show ?thesis
  proof (cases "parseBuild_loop ?v 1 1")
    case None
    with scan show ?thesis by (simp add: parseBuild_def)
  next
    case (Some r)
    obtain j st where r: "r = (j, st)" by (cases r)
    have "j = length ?v"
      using Some r by (intro parseBuild_loop_end [where i = 1 and start = 1 and st = st]) simp_all
    with scan Some r show ?thesis
      by (auto simp: parseBuild_def)
  qed
qed

lemma parse_build_iff:
  "snd (parse_build p u) =
    (case u of [] \<Rightarrow> True | c # m \<Rightarrow> c = CHR ''+'' \<and> dotted build_ident m)"
  by (cases u) (simp_all add: parse_build_def parseBuild_iff)

lemma dropWhile_hd: "dropWhile P xs = y # ys \<Longrightarrow> \<not> P y"
proof -
  assume a: "dropWhile P xs = y # ys"
  then have "dropWhile P xs \<noteq> []" by simp
  then have "\<not> P (hd (dropWhile P xs))" by (rule hd_dropWhile)
  with a show ?thesis by simp
qed

lemma parse_prerelease_iff: "snd (parse_prerelease p t) = semver_tail t"
proof (cases t)
  case Nil
  then show ?thesis
    by (simp add: parse_prerelease_def parse_build_iff semver_tail_def)
next
  case (Cons e r)
  let ?P = "\<lambda>c. c \<noteq> CHR ''+''"
  show ?thesis
  proof (cases "e = CHR ''-''")
    case True
    show ?thesis
    proof (cases "dotted pre_ident (takeWhile ?P r)")
      case False
      with Cons True show ?thesis
        by (simp add: parse_prerelease_def parsePrerelease_iff semver_tail_def)
    next
      case ok: True
      have "(case dropWhile ?P r of [] \<Rightarrow> True | c # m \<Rightarrow> c = CHR ''+'' \<and> dotted build_ident m) =
          (case dropWhile ?P r of [] \<Rightarrow> True | c # m \<Rightarrow> dotted build_ident m)"
      proof (cases "dropWhile ?P r")
        case Nil
        show ?thesis unfolding Nil by simp
      next
        case (Cons c m)
        then have "\<not> c \<noteq> CHR ''+''" by (rule dropWhile_hd)
        then show ?thesis unfolding Cons by simp
      qed
      with Cons True ok show ?thesis
        by (simp add: parse_prerelease_def parsePrerelease_iff parse_build_iff semver_tail_def)
    qed
  next
    case False
    with Cons show ?thesis
      by (simp add: parse_prerelease_def parse_build_iff semver_tail_def)
  qed
qed

lemma semver_tail_start:
  "semver_tail t \<Longrightarrow> t = [] \<or> hd t = CHR ''-'' \<or> hd t = CHR ''+''"
  by (cases t) (auto simp: semver_tail_def split: if_splits)

subsection \<open>The parser against the grammar\<close>

lemma span_append:
  "list_all P a \<Longrightarrow> t = [] \<or> \<not> P (hd t) \<Longrightarrow>
   takeWhile P (a @ t) = a \<and> dropWhile P (a @ t) = t"
  by (induction a) (cases t; simp)+

lemma numeric_digits: "numeric a \<Longrightarrow> list_all isDigit a"
  by (simp add: numeric_def)

lemma numeric_no_dot: "numeric a \<Longrightarrow> CHR ''.'' \<notin> set a"
  by (simp add: numeric_digits digits_no_dot)

lemma span_numeric:
  "numeric a \<Longrightarrow> t = [] \<or> \<not> isDigit (hd t) \<Longrightarrow>
   takeWhile isDigit (a @ t) = a \<and> dropWhile isDigit (a @ t) = t"
  by (rule span_append) (simp_all add: numeric_digits)

lemma parse_iff:
  "snd (parse (CHR ''v'' # x)) =
    (numeric (takeWhile isDigit x) \<and>
     (case dropWhile isDigit x of
        [] \<Rightarrow> True
      | c1 # y \<Rightarrow>
          c1 = CHR ''.'' \<and> numeric (takeWhile isDigit y) \<and>
          (case dropWhile isDigit y of
             [] \<Rightarrow> True
           | c2 # z \<Rightarrow>
               c2 = CHR ''.'' \<and> numeric (takeWhile isDigit z) \<and>
               semver_tail (dropWhile isDigit z))))"
proof (cases "numeric (takeWhile isDigit x)")
  case False
  then show ?thesis by (simp add: parse_def parseInt_iff)
next
  case a: True
  show ?thesis
  proof (cases "dropWhile isDigit x")
    case Nil
    show ?thesis by (simp add: parse_def parseInt_iff Let_def a Nil)
  next
    case r1: (Cons c1 y)
    consider (nodot) "c1 \<noteq> CHR ''.''"
      | (bad) "c1 = CHR ''.''" "\<not> numeric (takeWhile isDigit y)"
      | (ok) "c1 = CHR ''.''" "numeric (takeWhile isDigit y)"
      by blast
    then show ?thesis
    proof cases
      case nodot
      then show ?thesis by (simp add: parse_def parseInt_iff Let_def a r1)
    next
      case bad
      then show ?thesis by (simp add: parse_def parseInt_iff Let_def a r1)
    next
      case ok
      show ?thesis
      proof (cases "dropWhile isDigit y")
        case Nil
        show ?thesis by (simp add: parse_def parseInt_iff Let_def a r1 ok Nil)
      next
        case r2: (Cons c2 z)
        consider (nodot2) "c2 \<noteq> CHR ''.''"
          | (bad2) "c2 = CHR ''.''" "\<not> numeric (takeWhile isDigit z)"
          | (ok2) "c2 = CHR ''.''" "numeric (takeWhile isDigit z)"
          by blast
        then show ?thesis
        proof cases
          case nodot2
          then show ?thesis by (simp add: parse_def parseInt_iff Let_def a r1 ok r2)
        next
          case bad2
          then show ?thesis by (simp add: parse_def parseInt_iff Let_def a r1 ok r2)
        next
          case ok2
          then show ?thesis
            by (simp add: parse_def parseInt_iff Let_def a r1 ok r2 parse_prerelease_iff)
        qed
      qed
    qed
  qed
qed

lemma parse_no_v: "s = [] \<or> hd s \<noteq> CHR ''v'' \<Longrightarrow> \<not> snd (parse s)"
  by (cases s) (auto simp: parse_def)

lemma parse_accept_major:
  assumes "numeric a"
  shows "snd (parse (CHR ''v'' # a))"
proof -
  from span_numeric [OF assms, of "[]"]
  have 1: "takeWhile isDigit a = a" "dropWhile isDigit a = []" by simp_all
  show ?thesis by (simp only: parse_iff 1 list.case assms simp_thms)
qed

lemma parse_accept_minor:
  assumes "numeric a" "numeric b"
  shows "snd (parse (CHR ''v'' # a @ CHR ''.'' # b))"
proof -
  from span_numeric [OF assms(1), of "CHR ''.'' # b"]
  have 1: "takeWhile isDigit (a @ CHR ''.'' # b) = a"
    "dropWhile isDigit (a @ CHR ''.'' # b) = CHR ''.'' # b"
    by (simp_all add: not_isDigit_dot)
  from span_numeric [OF assms(2), of "[]"]
  have 2: "takeWhile isDigit b = b" "dropWhile isDigit b = []" by simp_all
  show ?thesis by (simp only: parse_iff 1 2 list.case assms simp_thms)
qed

lemma parse_accept_full:
  assumes "numeric a" "numeric b" "numeric c" "semver_tail t"
  shows "snd (parse (CHR ''v'' # a @ CHR ''.'' # b @ CHR ''.'' # c @ t))"
proof -
  from span_numeric [OF assms(1), of "CHR ''.'' # b @ CHR ''.'' # c @ t"]
  have 1: "takeWhile isDigit (a @ CHR ''.'' # b @ CHR ''.'' # c @ t) = a"
    "dropWhile isDigit (a @ CHR ''.'' # b @ CHR ''.'' # c @ t) = CHR ''.'' # b @ CHR ''.'' # c @ t"
    by (simp_all add: not_isDigit_dot)
  from span_numeric [OF assms(2), of "CHR ''.'' # c @ t"]
  have 2: "takeWhile isDigit (b @ CHR ''.'' # c @ t) = b"
    "dropWhile isDigit (b @ CHR ''.'' # c @ t) = CHR ''.'' # c @ t"
    by (simp_all add: not_isDigit_dot)
  from semver_tail_start [OF assms(4)] have "t = [] \<or> \<not> isDigit (hd t)"
    using not_isDigit_hyphen not_isDigit_plus by auto
  with span_numeric [OF assms(3), of t]
  have 3: "takeWhile isDigit (c @ t) = c" "dropWhile isDigit (c @ t) = t"
    by simp_all
  show ?thesis by (simp only: parse_iff 1 2 3 list.case assms simp_thms)
qed

lemma parse_accept_shape:
  assumes "snd (parse (CHR ''v'' # x))"
  shows "numeric x \<or> (\<exists>a b. x = a @ CHR ''.'' # b \<and> numeric a \<and> numeric b) \<or>
    (\<exists>a b c t. x = a @ CHR ''.'' # b @ CHR ''.'' # c @ t \<and>
       numeric a \<and> numeric b \<and> numeric c \<and> semver_tail t)"
proof -
  let ?a = "takeWhile isDigit x"
  have x: "x = ?a @ dropWhile isDigit x" by simp
  from assms have a: "numeric ?a" by (simp add: parse_iff)
  show ?thesis
  proof (cases "dropWhile isDigit x")
    case Nil
    with x have "x = ?a" by simp
    with a show ?thesis by simp
  next
    case r1: (Cons c1 y)
    let ?b = "takeWhile isDigit y"
    have y: "y = ?b @ dropWhile isDigit y" by simp
    from assms have c1: "c1 = CHR ''.''" and b: "numeric ?b"
      unfolding parse_iff r1 by simp_all
    from x r1 c1 have x1: "x = ?a @ CHR ''.'' # y" by simp
    show ?thesis
    proof (cases "dropWhile isDigit y")
      case Nil
      with y have "y = ?b" by simp
      with x1 have "x = ?a @ CHR ''.'' # ?b" by simp
      with a b show ?thesis by blast
    next
      case r2: (Cons c2 z)
      let ?c = "takeWhile isDigit z"
      let ?t = "dropWhile isDigit z"
      have z: "z = ?c @ ?t" by simp
      from assms have c2: "c2 = CHR ''.''" and c: "numeric ?c" and t: "semver_tail ?t"
        unfolding parse_iff r1 by (simp_all add: r2)
      from y r2 c2 have "y = ?b @ CHR ''.'' # z" by simp
      with z have "y = ?b @ CHR ''.'' # ?c @ ?t" by simp
      with x1 have "x = ?a @ CHR ''.'' # ?b @ CHR ''.'' # ?c @ ?t" by simp
      with a b c t show ?thesis by blast
    qed
  qed
qed

lemma semver_short_iff:
  "semver_short x = (numeric x \<or> (\<exists>a b. x = a @ CHR ''.'' # b \<and> numeric a \<and> numeric b))"
proof
  assume s: "semver_short x"
  then have all: "list_all numeric (splitOn CHR ''.'' x)"
    by (simp add: semver_short_def dotted_def)
  from s consider "length (splitOn CHR ''.'' x) = 1" | "length (splitOn CHR ''.'' x) = 2"
    by (auto simp: semver_short_def)
  then show "numeric x \<or> (\<exists>a b. x = a @ CHR ''.'' # b \<and> numeric a \<and> numeric b)"
  proof cases
    case 1
    then obtain a where sp: "splitOn CHR ''.'' x = [a]"
      by (cases "splitOn CHR ''.'' x") simp_all
    then have "x = a" by (rule splitOn_one)
    with all sp show ?thesis by simp
  next
    case 2
    then obtain a b where sp: "splitOn CHR ''.'' x = [a, b]"
      by (cases "splitOn CHR ''.'' x"; cases "tl (splitOn CHR ''.'' x)") auto
    then obtain r where "x = a @ CHR ''.'' # r" "splitOn CHR ''.'' r = [b]"
      using splitOn_Cons [of "CHR ''.''" x a b "[]"] by auto
    then have "x = a @ CHR ''.'' # b" by (simp add: splitOn_one)
    with all sp show ?thesis by auto
  qed
next
  assume "numeric x \<or> (\<exists>a b. x = a @ CHR ''.'' # b \<and> numeric a \<and> numeric b)"
  then show "semver_short x"
  proof
    assume "numeric x"
    then show ?thesis
      by (simp add: semver_short_def dotted_def splitOn_none numeric_no_dot)
  next
    assume "\<exists>a b. x = a @ CHR ''.'' # b \<and> numeric a \<and> numeric b"
    then obtain a b where "x = a @ CHR ''.'' # b" "numeric a" "numeric b" by blast
    then show ?thesis
      by (simp add: semver_short_def dotted_def splitOn_append splitOn_none numeric_no_dot)
  qed
qed

lemma semver_core_iff:
  "semver_core s =
    (\<exists>a b c. s = a @ CHR ''.'' # b @ CHR ''.'' # c \<and> numeric a \<and> numeric b \<and> numeric c)"
proof
  assume s: "semver_core s"
  then have all: "list_all numeric (splitOn CHR ''.'' s)"
    by (simp add: semver_core_def dotted_def)
  from s have "length (splitOn CHR ''.'' s) = Suc (Suc (Suc 0))"
    by (simp add: semver_core_def)
  then obtain a b c where sp: "splitOn CHR ''.'' s = [a, b, c]"
    by (auto simp: length_Suc_conv)
  then obtain r where r: "s = a @ CHR ''.'' # r" "splitOn CHR ''.'' r = [b, c]"
    using splitOn_Cons [of "CHR ''.''" s a b "[c]"] by auto
  then obtain r' where r': "r = b @ CHR ''.'' # r'" "splitOn CHR ''.'' r' = [c]"
    using splitOn_Cons [of "CHR ''.''" r b c "[]"] by auto
  then have "r' = c" by (simp add: splitOn_one)
  with r r' have "s = a @ CHR ''.'' # b @ CHR ''.'' # c" by simp
  with all sp show "\<exists>a b c. s = a @ CHR ''.'' # b @ CHR ''.'' # c \<and>
      numeric a \<and> numeric b \<and> numeric c"
    by auto
next
  assume "\<exists>a b c. s = a @ CHR ''.'' # b @ CHR ''.'' # c \<and> numeric a \<and> numeric b \<and> numeric c"
  then obtain a b c where "s = a @ CHR ''.'' # b @ CHR ''.'' # c"
    "numeric a" "numeric b" "numeric c"
    by blast
  then show "semver_core s"
    by (simp add: semver_core_def dotted_def splitOn_append splitOn_none numeric_no_dot)
qed

lemma is_semver_iff:
  "is_semver x =
    (\<exists>a b c t. x = a @ CHR ''.'' # b @ CHR ''.'' # c @ t \<and>
       numeric a \<and> numeric b \<and> numeric c \<and> semver_tail t)"
proof
  let ?Q = "\<lambda>c. c \<noteq> CHR ''-'' \<and> c \<noteq> CHR ''+''"
  assume "is_semver x"
  then have core: "semver_core (takeWhile ?Q x)" and tail: "semver_tail (dropWhile ?Q x)"
    by (simp_all add: is_semver_def)
  from core obtain a b c where abc: "takeWhile ?Q x = a @ CHR ''.'' # b @ CHR ''.'' # c"
    "numeric a" "numeric b" "numeric c"
    unfolding semver_core_iff by blast
  have "x = takeWhile ?Q x @ dropWhile ?Q x" by simp
  with abc(1) have "x = a @ CHR ''.'' # b @ CHR ''.'' # c @ dropWhile ?Q x" by simp
  with abc tail show "\<exists>a b c t. x = a @ CHR ''.'' # b @ CHR ''.'' # c @ t \<and>
      numeric a \<and> numeric b \<and> numeric c \<and> semver_tail t"
    by blast
next
  let ?Q = "\<lambda>c. c \<noteq> CHR ''-'' \<and> c \<noteq> CHR ''+''"
  assume "\<exists>a b c t. x = a @ CHR ''.'' # b @ CHR ''.'' # c @ t \<and>
      numeric a \<and> numeric b \<and> numeric c \<and> semver_tail t"
  then obtain a b c t where x: "x = (a @ CHR ''.'' # b @ CHR ''.'' # c) @ t"
    and n: "numeric a" "numeric b" "numeric c" and t: "semver_tail t"
    by auto
  have q: "list_all ?Q d" if "numeric d" for d
    using numeric_digits [OF that] not_isDigit_hyphen not_isDigit_plus
    by (auto simp: list_all_iff)
  from n have "list_all ?Q (a @ CHR ''.'' # b @ CHR ''.'' # c)"
    by (simp add: q)
  moreover from semver_tail_start [OF t] have "t = [] \<or> \<not> ?Q (hd t)" by auto
  ultimately have "takeWhile ?Q ((a @ CHR ''.'' # b @ CHR ''.'' # c) @ t) =
      a @ CHR ''.'' # b @ CHR ''.'' # c \<and>
    dropWhile ?Q ((a @ CHR ''.'' # b @ CHR ''.'' # c) @ t) = t"
    by (rule span_append)
  moreover from n have "semver_core (a @ CHR ''.'' # b @ CHR ''.'' # c)"
    unfolding semver_core_iff by blast
  ultimately show "is_semver x"
    unfolding is_semver_def x using t by simp
qed

lemma parse_accept_iff:
  "snd (parse (CHR ''v'' # x)) = (is_semver x \<or> semver_short x)"
proof
  assume "snd (parse (CHR ''v'' # x))"
  then have "numeric x \<or> (\<exists>a b. x = a @ CHR ''.'' # b \<and> numeric a \<and> numeric b) \<or>
    (\<exists>a b c t. x = a @ CHR ''.'' # b @ CHR ''.'' # c @ t \<and>
       numeric a \<and> numeric b \<and> numeric c \<and> semver_tail t)"
    by (rule parse_accept_shape)
  then show "is_semver x \<or> semver_short x"
    unfolding is_semver_iff semver_short_iff by blast
next
  assume "is_semver x \<or> semver_short x"
  then consider (full) a b c t where "x = a @ CHR ''.'' # b @ CHR ''.'' # c @ t"
      "numeric a" "numeric b" "numeric c" "semver_tail t"
    | (major) "numeric x"
    | (minor) a b where "x = a @ CHR ''.'' # b" "numeric a" "numeric b"
    unfolding is_semver_iff semver_short_iff by blast
  then show "snd (parse (CHR ''v'' # x))"
  proof cases
    case full
    then show ?thesis using parse_accept_full [of a b c t] by simp
  next
    case major
    then show ?thesis by (rule parse_accept_major)
  next
    case minor
    then show ?thesis using parse_accept_minor [of a b] by simp
  qed
qed

lemma semver_IsValid_iff:
  "semver_IsValid s = (s \<noteq> [] \<and> hd s = CHR ''v'' \<and> (is_semver (tl s) \<or> semver_short (tl s)))"
proof (cases "s = [] \<or> hd s \<noteq> CHR ''v''")
  case True
  then have "\<not> snd (parse s)" by (rule parse_no_v)
  with True show ?thesis by (auto simp: semver_IsValid_def)
next
  case False
  then obtain x where s: "s = CHR ''v'' # x" by (cases s) auto
  then show ?thesis by (simp add: semver_IsValid_def parse_accept_iff)
qed

lemma semver_IsValid_accepted: "semver_IsValid s = accepted_version s"
  by (cases s) (simp_all add: semver_IsValid_iff accepted_version_def)

lemma validate_InvalidVersion_iff:
  "(validate IsValid c = Some ErrInvalidLavaVersion) = (\<not> IsValid (LavaVersion c))"
proof (cases "IsValid (LavaVersion c)")
  case False
  then show ?thesis by (simp add: validate_def)
next
  case True
  have "validate_loop ts \<noteq> Some ErrInvalidLavaVersion" for ts
    by (induction ts) (simp_all add: sentinels_distinct [symmetric])
  with True show ?thesis
    by (simp add: validate_def sentinels_distinct [symmetric])
qed

text \<open>
  Claim C4, as amended. \<open>validate\<close> fails with \<open>ErrInvalidLavaVersion\<close> exactly
  on the versions that \<^verbatim>\<open>semver.IsValid\<close> rejects, and \<^verbatim>\<open>semver.IsValid\<close>
  accepts exactly the strings that are the letter "v" followed by a valid
  semantic version (MAJOR.MINOR.PATCH with an optional prerelease and an
  optional build part) or by one of the shorthands MAJOR and MAJOR.MINOR. The
  "v" is required.
\<close>

theorem validate_version_check:
  "((validate semver_IsValid c = Some ErrInvalidLavaVersion) =
      (\<not> accepted_version (LavaVersion c))) \<and>
   semver_IsValid s = accepted_version s"
  by (simp add: validate_InvalidVersion_iff semver_IsValid_accepted)

theorem validate_version_check_witness:
  "semver_IsValid ''v1.0.3-alpha.1+build.05'' \<and>
   semver_IsValid ''v1.0'' \<and>
   \<not> semver_IsValid ''vGARBAGE'' \<and>
   \<not> semver_IsValid ''v1.0.0-01'' \<and>
   \<not> semver_IsValid ''v1.0-alpha'' \<and>
   validate semver_IsValid (want_target_identifier\<lparr>LavaVersion := ''v1.0.3-alpha.1+build.05''\<rparr>) \<noteq>
     Some ErrInvalidLavaVersion \<and>
   validate semver_IsValid (want_target_identifier\<lparr>LavaVersion := ''1.0.3''\<rparr>) =
     Some ErrInvalidLavaVersion"
proof -
  note grammar = accepted_version_def is_semver_def semver_short_def semver_core_def
    semver_tail_def dotted_def numeric_def pre_ident_def build_ident_def isDigit_def
    isIdentChar_def
  have a: "accepted_version ''v1.0.3-alpha.1+build.05''" by (simp add: grammar)
  have b: "accepted_version ''v1.0''" by (simp add: grammar)
  have c: "\<not> accepted_version ''vGARBAGE''" by (simp add: grammar)
  have d: "\<not> accepted_version ''v1.0.0-01''" by (simp add: grammar)
  have e: "\<not> accepted_version ''v1.0-alpha''" by (simp add: grammar)
  have f: "\<not> accepted_version ''1.0.3''" by (simp add: grammar)
  note sv = validate_version_check [THEN conjunct2]
  note va = validate_version_check [THEN conjunct1]
  have 1: "semver_IsValid ''v1.0.3-alpha.1+build.05''" unfolding sv by (rule a)
  have 2: "semver_IsValid ''v1.0''" unfolding sv by (rule b)
  have 3: "\<not> semver_IsValid ''vGARBAGE''" unfolding sv by (rule c)
  have 4: "\<not> semver_IsValid ''v1.0.0-01''" unfolding sv by (rule d)
  have 5: "\<not> semver_IsValid ''v1.0-alpha''" unfolding sv by (rule e)
  from a have 6: "validate semver_IsValid
      (want_target_identifier\<lparr>LavaVersion := ''v1.0.3-alpha.1+build.05''\<rparr>) \<noteq>
      Some ErrInvalidLavaVersion"
    by (simp add: va)
  from f have 7: "validate semver_IsValid (want_target_identifier\<lparr>LavaVersion := ''1.0.3''\<rparr>) =
      Some ErrInvalidLavaVersion"
    by (simp add: va)
  from 1 2 3 4 5 6 7 show ?thesis by (intro conjI)
qed

text \<open>
  Counterexample to claim C4 as stated, in both directions. "1.0.0" is a valid
  semantic version and does not pass the version check, for want of the "v".
  "v1" passes it, and neither "v1" nor "1" is a valid semantic version.
\<close>

theorem validate_version_not_semver:
  "is_semver ''1.0.0'' \<and>
   validate semver_IsValid (want_target_identifier\<lparr>LavaVersion := ''1.0.0''\<rparr>) =
     Some ErrInvalidLavaVersion \<and>
   \<not> is_semver ''v1'' \<and> \<not> is_semver ''1'' \<and>
   validate semver_IsValid (want_target_identifier\<lparr>LavaVersion := ''v1''\<rparr>) = None"
proof -
  note grammar = is_semver_def semver_core_def semver_tail_def dotted_def numeric_def
    pre_ident_def build_ident_def isDigit_def isIdentChar_def
  have a: "is_semver ''1.0.0''" "\<not> is_semver ''v1''" "\<not> is_semver ''1''"
    by (simp_all add: grammar)
  have "\<not> semver_IsValid ''1.0.0''"
    by (simp add: semver_IsValid_def parse_def)
  then have b: "validate semver_IsValid (want_target_identifier\<lparr>LavaVersion := ''1.0.0''\<rparr>) =
      Some ErrInvalidLavaVersion"
    by (simp add: validate_def)
  have "semver_IsValid ''v1''"
    by (simp add: semver_IsValid_def parse_def parseInt_def isDigit_def parsed_zero_def
        digits_loop.simps)
  then have c: "validate semver_IsValid (want_target_identifier\<lparr>LavaVersion := ''v1''\<rparr>) = None"
    by (simp add: validate_def want_target_identifier_def)
  from a b c show ?thesis by (intro conjI)
qed

section \<open>Exclusions\<close>

lemma ruleMatches_iff:
  "ruleMatches e f =
    ((Target e \<noteq> [] \<longrightarrow> targetName f = Target e) \<and>
     (Resource e \<noteq> [] \<longrightarrow> resourceName f = Resource e) \<and>
     (Fingerprint e \<noteq> [] \<longrightarrow> fingerprint f = Fingerprint e))"
  by (auto simp: ruleMatches_def)

lemma matchedExclusion_None: "(matchedExclusion es f = None) = (\<forall>e\<in>set es. \<not> ruleMatches e f)"
  by (induction es) auto

text \<open>
  Claim C5. A finding is suppressed exactly when some rule of the exclusion list
  matches it: each of the rule's fields target, resource and fingerprint that
  is not empty equals the finding's field, character for character. A rule in
  the list whose three fields are empty suppresses every finding.
\<close>

theorem suppressed_iff:
  "suppressed es f =
     (\<exists>e\<in>set es.
        (Target e \<noteq> [] \<longrightarrow> targetName f = Target e) \<and>
        (Resource e \<noteq> [] \<longrightarrow> resourceName f = Resource e) \<and>
        (Fingerprint e \<noteq> [] \<longrightarrow> fingerprint f = Fingerprint e)) \<and>
   (e0 \<in> set es \<and> Target e0 = [] \<and> Resource e0 = [] \<and> Fingerprint e0 = [] \<longrightarrow>
      suppressed es f)"
proof -
  have iff: "suppressed es f = (\<exists>e\<in>set es. ruleMatches e f)"
    by (simp add: suppressed_def matchedExclusion_None)
  then have "suppressed es f =
     (\<exists>e\<in>set es.
        (Target e \<noteq> [] \<longrightarrow> targetName f = Target e) \<and>
        (Resource e \<noteq> [] \<longrightarrow> resourceName f = Resource e) \<and>
        (Fingerprint e \<noteq> [] \<longrightarrow> fingerprint f = Fingerprint e))"
    by (simp add: ruleMatches_iff)
  moreover have "suppressed es f"
    if "e0 \<in> set es \<and> Target e0 = [] \<and> Resource e0 = [] \<and> Fingerprint e0 = []"
  proof -
    from that have "ruleMatches e0 f" by (simp add: ruleMatches_def)
    with that iff show ?thesis by blast
  qed
  ultimately show ?thesis by blast
qed

theorem suppressed_iff_witness:
  "suppressed
     [\<lparr>Target = ''example.com'', Resource = [], Fingerprint = [], Summary = [], Description = []\<rparr>]
     \<lparr>targetName = ''example.com'', resourceName = ''/login'', fingerprint = ''abc''\<rparr> \<and>
   \<not> suppressed
     [\<lparr>Target = ''example.com'', Resource = [], Fingerprint = [], Summary = [], Description = []\<rparr>]
     \<lparr>targetName = ''other.com'', resourceName = ''/login'', fingerprint = ''abc''\<rparr> \<and>
   \<not> suppressed
     [\<lparr>Target = ''example.com'', Resource = [], Fingerprint = [], Summary = [], Description = []\<rparr>]
     \<lparr>targetName = ''Example.com'', resourceName = ''/login'', fingerprint = ''abc''\<rparr> \<and>
   suppressed
     [\<lparr>Target = [], Resource = [], Fingerprint = [], Summary = [], Description = []\<rparr>]
     \<lparr>targetName = ''other.com'', resourceName = ''/login'', fingerprint = ''abc''\<rparr>"
proof -
  let ?rule = "\<lparr>Target = ''example.com'', Resource = [], Fingerprint = [], Summary = [],
    Description = []\<rparr>"
  let ?all = "\<lparr>Target = [], Resource = [], Fingerprint = [], Summary = [], Description = []\<rparr>"
  have a: "suppressed [?rule]
      \<lparr>targetName = ''example.com'', resourceName = ''/login'', fingerprint = ''abc''\<rparr>"
    using suppressed_iff [of "[?rule]"
        "\<lparr>targetName = ''example.com'', resourceName = ''/login'', fingerprint = ''abc''\<rparr>",
        THEN conjunct1]
    by simp
  have b: "\<not> suppressed [?rule]
      \<lparr>targetName = ''other.com'', resourceName = ''/login'', fingerprint = ''abc''\<rparr>"
    using suppressed_iff [of "[?rule]"
        "\<lparr>targetName = ''other.com'', resourceName = ''/login'', fingerprint = ''abc''\<rparr>",
        THEN conjunct1]
    by simp
  have c: "\<not> suppressed [?rule]
      \<lparr>targetName = ''Example.com'', resourceName = ''/login'', fingerprint = ''abc''\<rparr>"
    using suppressed_iff [of "[?rule]"
        "\<lparr>targetName = ''Example.com'', resourceName = ''/login'', fingerprint = ''abc''\<rparr>",
        THEN conjunct1]
    by simp
  have "?all \<in> set [?all] \<and> Target ?all = [] \<and> Resource ?all = [] \<and> Fingerprint ?all = []"
    by simp
  then have d: "suppressed [?all]
      \<lparr>targetName = ''other.com'', resourceName = ''/login'', fingerprint = ''abc''\<rparr>"
    by (rule suppressed_iff [THEN conjunct2, THEN mp])
  from a b c d show ?thesis by (intro conjI)
qed

section \<open>Severity filter\<close>

text \<open>
  Claim C6. The five severities have the ranks -3, -2, -1, 0 and 1 and are
  ordered Info, Low, Medium, High, Critical. A finding is reportable exactly
  when its rank is at least the rank of the minimum: with the minimum High, of
  the five severities High and Critical are reportable; Medium is not.
\<close>

theorem reportable_rank:
  "SeverityInfo = - 3 \<and> SeverityLow = - 2 \<and> SeverityMedium = - 1 \<and> SeverityHigh = 0 \<and>
   SeverityCritical = 1 \<and>
   SeverityInfo < SeverityLow \<and> SeverityLow < SeverityMedium \<and>
   SeverityMedium < SeverityHigh \<and> SeverityHigh < SeverityCritical \<and>
   (\<forall>f m. reportable f m = (f \<ge> m)) \<and>
   \<not> reportable SeverityMedium SeverityHigh \<and>
   reportable SeverityCritical SeverityHigh \<and>
   filter (\<lambda>f. reportable f SeverityHigh)
     [SeverityInfo, SeverityLow, SeverityMedium, SeverityHigh, SeverityCritical] =
     [SeverityHigh, SeverityCritical]"
  by (simp add: reportable_def SeverityInfo_def SeverityLow_def SeverityMedium_def
      SeverityHigh_def SeverityCritical_def)

section \<open>Severity names\<close>

lemma Severity_String_values:
  "Severity_String 1 = Some ''critical''" "Severity_String 0 = Some ''high''"
  "Severity_String (- 1) = Some ''medium''" "Severity_String (- 2) = Some ''low''"
  "Severity_String (- 3) = Some ''info''"
  by (simp_all add: Severity_String_def severityNames_entries_def SeverityCritical_def
      SeverityHigh_def SeverityMedium_def SeverityLow_def SeverityInfo_def)

lemma parseSeverity_hits:
  "parseSeverity ''critical'' = (1, None)" "parseSeverity ''high'' = (0, None)"
  "parseSeverity ''medium'' = (- 1, None)" "parseSeverity ''low'' = (- 2, None)"
  "parseSeverity ''info'' = (- 3, None)"
  by (simp_all add: parseSeverity_def severityNames_def severityNames_entries_def
      SeverityCritical_def SeverityHigh_def SeverityMedium_def SeverityLow_def
      SeverityInfo_def)

text \<open>
  Claim C8. For each of the five names, \<open>parseSeverity\<close> succeeds and the name of
  the value it returns is the name that was parsed. Every other string fails
  with an error that wraps \<open>ErrInvalidSeverity\<close>.
\<close>

theorem severity_roundtrip:
  "(name \<in> {''critical'', ''high'', ''medium'', ''low'', ''info''} \<longrightarrow>
      snd (parseSeverity name) = None \<and>
      Severity_String (fst (parseSeverity name)) = Some name) \<and>
   (name \<notin> {''critical'', ''high'', ''medium'', ''low'', ''info''} \<longrightarrow>
      (\<exists>e. snd (parseSeverity name) = Some e \<and> errors_Is e ErrInvalidSeverity))"
proof (rule conjI; rule impI)
  assume "name \<in> {''critical'', ''high'', ''medium'', ''low'', ''info''}"
  then have "name = ''critical'' \<or> name = ''high'' \<or> name = ''medium'' \<or>
      name = ''low'' \<or> name = ''info''"
    by simp
  then show "snd (parseSeverity name) = None \<and>
      Severity_String (fst (parseSeverity name)) = Some name"
    by (elim disjE) (simp_all only: parseSeverity_hits Severity_String_values fst_conv snd_conv
        simp_thms)
next
  assume "name \<notin> {''critical'', ''high'', ''medium'', ''low'', ''info''}"
  then have "severityNames name = None" by (rule severityNames_miss)
  then have "snd (parseSeverity name) = Some (Errorf_w_v ErrInvalidSeverity name)"
    by (simp add: parseSeverity_def)
  moreover have "errors_Is (Errorf_w_v ErrInvalidSeverity name) ErrInvalidSeverity"
    by (simp add: ErrInvalidSeverity_def)
  ultimately show "\<exists>e. snd (parseSeverity name) = Some e \<and> errors_Is e ErrInvalidSeverity"
    by blast
qed

theorem severity_roundtrip_witness:
  "''medium'' \<in> {''critical'', ''high'', ''medium'', ''low'', ''info''} \<and>
   Severity_String (fst (parseSeverity ''medium'')) = Some ''medium'' \<and>
   ''Medium'' \<notin> {''critical'', ''high'', ''medium'', ''low'', ''info''} \<and>
   (\<exists>e. snd (parseSeverity ''Medium'') = Some e \<and> errors_Is e ErrInvalidSeverity)"
proof -
  have i: "''medium'' \<in> {''critical'', ''high'', ''medium'', ''low'', ''info''}" by simp
  have o: "''Medium'' \<notin> {''critical'', ''high'', ''medium'', ''low'', ''info''}" by simp
  from severity_roundtrip [of "''medium''", THEN conjunct1, THEN mp, OF i]
  have a: "Severity_String (fst (parseSeverity ''medium'')) = Some ''medium''"
    by (rule conjunct2)
  from severity_roundtrip [of "''Medium''", THEN conjunct2, THEN mp, OF o]
  have b: "\<exists>e. snd (parseSeverity ''Medium'') = Some e \<and> errors_Is e ErrInvalidSeverity" .
  from i a o b show ?thesis by (intro conjI)
qed

end
